theory Spec2Isabelle
  imports Main "HOL-Library.Sublist"
begin

section \<open>JavaScript values\<close>

text \<open>
  The handler of \<^verbatim>\<open>src/server/node/core/handler.js\<close> is dynamically typed: a group
  requirement is a string, an array or a boolean, a session entry is a string or null, a
  callback receives \<^verbatim>\<open>false\<close> or a message. The values are therefore one datatype.
  Numbers are the integers (fractions play no part in the handler). An object is the list
  of its own properties, first binding first. A function is known by its name only: the
  handler meets one where a read finds an inherited member such as \<^verbatim>\<open>constructor\<close>,
  and it never calls it.
\<close>

datatype jsval =
    JUndefined
  | JNull
  | JBool bool
  | JNum int
  | JStr string
  | JArr "jsval list"
  | JObj "(string \<times> jsval) list"
  | JFun string

text \<open>What a \<^verbatim>\<open>throw\<close> carries: the two built-in errors the handler can meet, or a
  value thrown by a collaborator.\<close>

datatype exn = TypeError | SyntaxError | Thrown jsval

text \<open>Every checking method of the handler ends by calling \<^verbatim>\<open>callback(err, res)\<close> once,
  or by throwing. \<^verbatim>\<open>callback(err)\<close> leaves the second argument undefined.\<close>

datatype outcome = Threw exn | Callback jsval jsval

fun truthy :: "jsval \<Rightarrow> bool" where
  "truthy JUndefined = False"
| "truthy JNull = False"
| "truthy (JBool b) = b"
| "truthy (JNum n) = (n \<noteq> 0)"
| "truthy (JStr s) = (s \<noteq> [])"
| "truthy (JArr xs) = True"
| "truthy (JObj kvs) = True"
| "truthy (JFun f) = True"

definition js_or :: "jsval \<Rightarrow> jsval \<Rightarrow> jsval" where
  "js_or a b = (if truthy a then a else b)"

fun nullish :: "jsval \<Rightarrow> bool" where
  "nullish JUndefined = True"
| "nullish JNull = True"
| "nullish v = False"

fun js_typeof :: "jsval \<Rightarrow> string" where
  "js_typeof JUndefined = ''undefined''"
| "js_typeof JNull = ''object''"
| "js_typeof (JBool b) = ''boolean''"
| "js_typeof (JNum n) = ''number''"
| "js_typeof (JStr s) = ''string''"
| "js_typeof (JArr xs) = ''object''"
| "js_typeof (JObj kvs) = ''object''"
| "js_typeof (JFun f) = ''function''"

fun is_Array :: "jsval \<Rightarrow> bool" where
  "is_Array (JArr xs) = True"
| "is_Array v = False"

text \<open>
  \<^verbatim>\<open>===\<close> as \<^verbatim>\<open>indexOf\<close> applies it. Primitives are compared by value. Arrays and
  objects are compared by identity; the two sides of every comparison in the handler come
  from different places (one freshly parsed from the session or handed in by the request,
  the other from the configuration), so they are never the same object. A built-in
  function is the same function wherever it is read.
\<close>

fun strict_eq :: "jsval \<Rightarrow> jsval \<Rightarrow> bool" where
  "strict_eq (JArr xs) v = False"
| "strict_eq (JObj kvs) v = False"
| "strict_eq u v = (u = v)"

subsection \<open>Conversion to string\<close>

function string_of_nat :: "nat \<Rightarrow> string" where
  "string_of_nat n =
     (if n < 10 then [''0123456789'' ! n]
      else string_of_nat (n div 10) @ [''0123456789'' ! (n mod 10)])"
  by pat_completeness auto
termination
  by (relation "measure id") auto

declare string_of_nat.simps [simp del]

definition string_of_int :: "int \<Rightarrow> string" where
  "string_of_int i = (if i < 0 then CHR ''-'' # string_of_nat (nat (- i)) else string_of_nat (nat i))"

fun join :: "string \<Rightarrow> string list \<Rightarrow> string" where
  "join sep [] = []"
| "join sep [x] = x"
| "join sep (x # y # ys) = x @ sep @ join sep (y # ys)"

text \<open>\<^verbatim>\<open>ToString\<close>: an array prints its elements separated by commas, with null and
  undefined elements empty.\<close>

fun ToString :: "jsval \<Rightarrow> string" where
  "ToString JUndefined = ''undefined''"
| "ToString JNull = ''null''"
| "ToString (JBool b) = (if b then ''true'' else ''false'')"
| "ToString (JNum n) = string_of_int n"
| "ToString (JStr s) = s"
| "ToString (JArr xs) = join '','' (map (\<lambda>x. if nullish x then [] else ToString x) xs)"
| "ToString (JObj kvs) = ''[object Object]''"
| "ToString (JFun f) = ''function '' @ f @ ''() { [native code] }''"

subsection \<open>Property reads and method calls\<close>

text \<open>
  The own properties of a value. Reading a property of null or undefined throws. An
  object has the properties of its list; an array and a string have \<^verbatim>\<open>length\<close> and
  their indices. \<open>own_prop\<close> is \<open>None\<close> where the value has no own property of the name.
\<close>

definition index_of_key :: "nat \<Rightarrow> string \<Rightarrow> nat option" where
  "index_of_key n k = List.find (\<lambda>i. string_of_nat i = k) [0..<n]"

fun own_prop :: "jsval \<Rightarrow> string \<Rightarrow> jsval option" where
  "own_prop (JObj kvs) k = map_of kvs k"
| "own_prop (JArr xs) k =
     (if k = ''length'' then Some (JNum (int (length xs)))
      else map_option (\<lambda>i. xs ! i) (index_of_key (length xs) k))"
| "own_prop (JStr s) k =
     (if k = ''length'' then Some (JNum (int (length s)))
      else map_option (\<lambda>i. JStr [s ! i]) (index_of_key (length s) k))"
| "own_prop v k = None"

text \<open>
  \<^verbatim>\<open>o.name\<close> for the names the handler writes out: \<^verbatim>\<open>path\<close>, \<^verbatim>\<open>src\<close>,
  \<^verbatim>\<open>protocol\<close>, \<^verbatim>\<open>groups\<close>, \<^verbatim>\<open>username\<close>, \<^verbatim>\<open>userData\<close>, \<^verbatim>\<open>userSettings\<close> and
  \<^verbatim>\<open>blacklistedPackages\<close>. No built-in prototype has a member of one of these names, so
  the read finds the own property or nothing.
\<close>

definition get_own :: "jsval \<Rightarrow> string \<Rightarrow> exn + jsval" where
  "get_own v k =
     (if nullish v then Inl TypeError
      else Inr (case own_prop v k of Some x \<Rightarrow> x | None \<Rightarrow> JUndefined))"

fun set_prop :: "(string \<times> jsval) list \<Rightarrow> string \<Rightarrow> jsval \<Rightarrow> (string \<times> jsval) list" where
  "set_prop [] k v = [(k, v)]"
| "set_prop ((k', v') # kvs) k v = (if k' = k then (k, v) # kvs else (k', v') # set_prop kvs k v)"

text \<open>\<^verbatim>\<open>Array.prototype.indexOf\<close> and \<^verbatim>\<open>String.prototype.indexOf\<close>, counting from the
  given position.\<close>

fun array_indexOf :: "jsval list \<Rightarrow> jsval \<Rightarrow> int \<Rightarrow> int" where
  "array_indexOf [] p i = - 1"
| "array_indexOf (x # xs) p i = (if strict_eq x p then i else array_indexOf xs p (i + 1))"

fun string_indexOf :: "string \<Rightarrow> string \<Rightarrow> int \<Rightarrow> int" where
  "string_indexOf [] t i = (if t = [] then i else - 1)"
| "string_indexOf (c # cs) t i = (if prefix t (c # cs) then i else string_indexOf cs t (i + 1))"

text \<open>
  \<^verbatim>\<open>recv.indexOf(x)\<close> on whatever \<^verbatim>\<open>recv\<close> is: an array searches its elements, a
  string searches for \<^verbatim>\<open>ToString(x)\<close> as a substring, and no other value has the method.
\<close>

fun call_indexOf :: "jsval \<Rightarrow> jsval \<Rightarrow> exn + int" where
  "call_indexOf (JArr xs) x = Inr (array_indexOf xs x 0)"
| "call_indexOf (JStr s) x = Inr (string_indexOf s (ToString x) 0)"
| "call_indexOf v x = Inl TypeError"

subsection \<open>The runtime's built-ins\<close>

text \<open>
  \<^verbatim>\<open>JSON.parse\<close>, \<^verbatim>\<open>JSON.stringify\<close> and \<^verbatim>\<open>path.dirname\<close> belong to the platform, not
  to the handler, and are parameters of the model: \<open>parse_text\<close> is \<open>None\<close> where the
  text is not JSON (a \<^verbatim>\<open>SyntaxError\<close>), \<open>stringify_value\<close> yields a string or undefined.
  What is fixed is how \<^verbatim>\<open>JSON.parse\<close> treats its argument: it converts it to a string
  first. The platform also decides what a value inherits from its prototypes:
  \<open>inherited_member v k\<close> is the member of the name \<open>k\<close> that the prototype chain of
  \<open>v\<close> holds, and \<open>None\<close> where it holds none.
\<close>

record runtime =
  parse_text :: "string \<Rightarrow> jsval option"
  stringify_value :: "jsval \<Rightarrow> jsval"
  path_dirname :: "string \<Rightarrow> string"
  inherited_member :: "jsval \<Rightarrow> string \<Rightarrow> jsval option"

text \<open>
  \<^verbatim>\<open>o[k]\<close> with a key computed from data, as in \<^verbatim>\<open>map[privilege]\<close>,
  \<^verbatim>\<open>cfg[protocol]\<close>, \<^verbatim>\<open>packages[packageName]\<close> and \<^verbatim>\<open>list[login.username]\<close>.
  Reading null or undefined throws; an own property is found first, then an inherited
  member, and a name found in neither place reads as undefined. So
  \<^verbatim>\<open>({})['constructor']\<close> is a function and not undefined.
\<close>

definition get_prop :: "runtime \<Rightarrow> jsval \<Rightarrow> string \<Rightarrow> exn + jsval" where
  "get_prop rt v k =
     (if nullish v then Inl TypeError
      else Inr (case own_prop v k of
                  Some x \<Rightarrow> x
                | None \<Rightarrow> (case inherited_member rt v k of Some x \<Rightarrow> x | None \<Rightarrow> JUndefined)))"

definition JSON_parse :: "runtime \<Rightarrow> jsval \<Rightarrow> exn + jsval" where
  "JSON_parse rt x = (case parse_text rt (ToString x) of None \<Rightarrow> Inl SyntaxError | Some v \<Rightarrow> Inr v)"

definition JSON_stringify :: "runtime \<Rightarrow> jsval \<Rightarrow> jsval" where
  "JSON_stringify rt v = stringify_value rt v"

section \<open>The handler\<close>

text \<open>The methods of \<^verbatim>\<open>DefaultHandler\<close> keep their names; where a name starts with an
  underscore, as in \<^verbatim>\<open>_checkHasGroup\<close>, the model writes \<open>u_checkHasGroup\<close>.\<close>

subsection \<open>What the handler is given\<close>

text \<open>
  Modelled from the spec: the session store, which the handler reaches as
  \<^verbatim>\<open>request.session\<close> and which is not part of \<^verbatim>\<open>handler.js\<close>. It is a
  collaborator with \<^verbatim>\<open>get(key) -> value\<close> and \<^verbatim>\<open>set(key, value)\<close>, holding
  \<^verbatim>\<open>username\<close> (a string or null) and \<^verbatim>\<open>groups\<close> (a JSON text or null):
  \<^verbatim>\<open>get\<close> returns what was last set, and a key never set reads as undefined. The
  request matters to the handler through its session only.
\<close>

type_synonym session = "string \<Rightarrow> jsval"

definition session_get :: "session \<Rightarrow> string \<Rightarrow> jsval" where
  "session_get req k = req k"

definition session_set :: "session \<Rightarrow> string \<Rightarrow> jsval \<Rightarrow> session" where
  "session_set req k v = req(k := v)"

text \<open>
  The server instance as the handler reads it: \<^verbatim>\<open>instance.setup.nw\<close>,
  \<^verbatim>\<open>instance.config.api.groups\<close>, \<^verbatim>\<open>instance.config.vfs.groups\<close>,
  \<^verbatim>\<open>instance.metadata\<close> and \<^verbatim>\<open>instance.vfs.getRealPath\<close>, which returns a mount or
  throws.
\<close>

record server =
  setup_nw :: bool
  api_groups :: jsval
  vfs_groups :: jsval
  metadata :: jsval
  vfs_getRealPath :: "jsval \<Rightarrow> session \<Rightarrow> exn + jsval"

text \<open>\<^verbatim>\<open>getUserBlacklistedPackages\<close> is the method a backend overrides; what it passes
  to its callback is the pair \<open>(error, list)\<close>. The default handler's own passes
  \<^verbatim>\<open>(false, [])\<close>.\<close>

type_synonym blacklister = "session \<Rightarrow> jsval \<times> jsval"

definition getUserBlacklistedPackages :: blacklister where
  "getUserBlacklistedPackages req = (JBool False, JArr [])"

subsection \<open>Session reads\<close>

definition getUserName :: "session \<Rightarrow> jsval" where
  "getUserName req = session_get req ''username''"

definition getUserGroups :: "runtime \<Rightarrow> session \<Rightarrow> jsval" where
  "getUserGroups rt req =
     (case JSON_parse rt (session_get req ''groups'') of
        Inl e \<Rightarrow> JArr []
      | Inr groups \<Rightarrow> groups)"

subsection \<open>The group check\<close>

text \<open>The body of \<^verbatim>\<open>groupnames.forEach\<close>: a name the user's groups lack clears
  \<^verbatim>\<open>allowed\<close>.\<close>

fun forEach_groupnames :: "jsval \<Rightarrow> jsval list \<Rightarrow> bool \<Rightarrow> exn + bool" where
  "forEach_groupnames groups [] allowed = Inr allowed"
| "forEach_groupnames groups (p # ps) allowed =
     (case call_indexOf groups p of
        Inl e \<Rightarrow> Inl e
      | Inr i \<Rightarrow> forEach_groupnames groups ps (if i < 0 then False else allowed))"

definition normalize_groupnames :: "jsval \<Rightarrow> jsval" where
  "normalize_groupnames groupnames0 =
     (let groupnames = js_or groupnames0 (JArr [])
      in if \<not> is_Array groupnames \<and> truthy groupnames then JArr [groupnames] else groupnames)"

definition u_checkHasGroup :: "runtime \<Rightarrow> session \<Rightarrow> jsval \<Rightarrow> outcome" where
  "u_checkHasGroup rt req groupnames0 =
     (let groupnames = normalize_groupnames groupnames0;
          allowed =
            (if js_typeof groupnames \<noteq> ''boolean'' then
               (let groups = getUserGroups rt req
                in case call_indexOf groups (JStr ''admin'') of
                     Inl e \<Rightarrow> Inl e
                   | Inr i \<Rightarrow>
                       if i < 0 then
                         (case groupnames of
                            JArr ps \<Rightarrow> forEach_groupnames groups ps True
                          | _ \<Rightarrow> Inl TypeError)
                       else Inr True)
             else Inr True)
      in case allowed of
           Inl e \<Rightarrow> Threw e
         | Inr a \<Rightarrow> Callback (JBool False) (JBool a))"

subsection \<open>The session check\<close>

definition u_checkHasSession :: "server \<Rightarrow> session \<Rightarrow> outcome" where
  "u_checkHasSession inst req =
     (if \<not> setup_nw inst \<and> \<not> truthy (getUserName req)
      then Callback (JStr ''You have no OS.js Session, please log in!'') JUndefined
      else Callback (JBool False) (JBool True))"

text \<open>The three public checks share their first stage: an error of the session check
  goes to the callback and nothing else runs.\<close>

definition after_session :: "server \<Rightarrow> session \<Rightarrow> outcome \<Rightarrow> outcome" where
  "after_session inst req next_check =
     (case u_checkHasSession inst req of
        Threw e \<Rightarrow> Threw e
      | Callback err res \<Rightarrow> if truthy err then Callback err JUndefined else next_check)"

subsection \<open>API privilege\<close>

text \<open>The callback both \<^verbatim>\<open>_checkHasAPIPrivilege\<close> and \<^verbatim>\<open>_checkHasVFSPrivilege\<close> hand
  to the group check: a refusal without an error gets the message.\<close>

definition deny_with :: "string \<Rightarrow> outcome \<Rightarrow> outcome" where
  "deny_with msg out =
     (case out of
        Threw e \<Rightarrow> Threw e
      | Callback err res \<Rightarrow>
          Callback (if \<not> truthy res \<and> \<not> truthy err then JStr msg else err) res)"

definition u_checkHasAPIPrivilege :: "runtime \<Rightarrow> server \<Rightarrow> session \<Rightarrow> string \<Rightarrow> outcome" where
  "u_checkHasAPIPrivilege rt inst req privilege =
     (let map = api_groups inst
      in case (if \<not> truthy map then Inr False
               else if privilege = [] then Inr False
               else map_sum id truthy (get_prop rt map privilege)) of
           Inl e \<Rightarrow> Threw e
         | Inr True \<Rightarrow>
             deny_with ''You are not allowed to use this API function!''
               (u_checkHasGroup rt req (JStr privilege))
         | Inr False \<Rightarrow> Callback (JBool False) (JBool True))"

definition checkAPIPrivilege :: "runtime \<Rightarrow> server \<Rightarrow> session \<Rightarrow> string \<Rightarrow> outcome" where
  "checkAPIPrivilege rt inst req privilege =
     after_session inst req (u_checkHasAPIPrivilege rt inst req privilege)"

subsection \<open>VFS privilege\<close>

text \<open>\<^verbatim>\<open>protocol.replace(/\:\/\/$/, '')\<close>: a trailing \<^verbatim>\<open>://\<close> is removed.\<close>

definition strip_protocol :: "string \<Rightarrow> string" where
  "strip_protocol s = (if suffix ''://'' s then take (length s - 3) s else s)"

text \<open>\<^verbatim>\<open>args.path || args.src\<close> and the call of the resolver: the first statement of
  \<^verbatim>\<open>_checkHasVFSPrivilege\<close>, which stands before the \<^verbatim>\<open>try\<close>.\<close>

definition path_argument :: "jsval \<Rightarrow> exn + jsval" where
  "path_argument args =
     (case get_own args ''path'' of
        Inl e \<Rightarrow> Inl e
      | Inr p \<Rightarrow> if truthy p then Inr p else get_own args ''src'')"

definition resolve_mount :: "server \<Rightarrow> session \<Rightarrow> jsval \<Rightarrow> exn + jsval" where
  "resolve_mount inst req args =
     (case path_argument args of
        Inl e \<Rightarrow> Inl e
      | Inr p \<Rightarrow> vfs_getRealPath inst p req)"

text \<open>The \<^verbatim>\<open>try\<close> block: \<^verbatim>\<open>against = cfg[mount.protocol.replace(...)]\<close>, and
  \<^verbatim>\<open>against\<close> stays undefined when anything in it throws (no mount, a protocol that
  is not a string, no table).\<close>

definition lookup_against :: "runtime \<Rightarrow> server \<Rightarrow> jsval \<Rightarrow> jsval" where
  "lookup_against rt inst mount =
     (case get_own mount ''protocol'' of
        Inl e \<Rightarrow> JUndefined
      | Inr (JStr s) \<Rightarrow>
          (case get_prop rt (vfs_groups inst) (strip_protocol s) of
             Inl e \<Rightarrow> JUndefined
           | Inr against \<Rightarrow> against)
      | Inr _ \<Rightarrow> JUndefined)"

definition u_checkHasVFSPrivilege ::
  "runtime \<Rightarrow> server \<Rightarrow> session \<Rightarrow> string \<Rightarrow> jsval \<Rightarrow> outcome" where
  "u_checkHasVFSPrivilege rt inst req method args =
     (case resolve_mount inst req args of
        Inl e \<Rightarrow> Threw e
      | Inr mount \<Rightarrow>
          (let against = lookup_against rt inst mount
           in if truthy against
              then deny_with ''You are not allowed to use this VFS function!''
                     (u_checkHasGroup rt req against)
              else Callback (JBool False) (JBool True)))"

definition checkVFSPrivilege ::
  "runtime \<Rightarrow> server \<Rightarrow> session \<Rightarrow> string \<Rightarrow> jsval \<Rightarrow> outcome" where
  "checkVFSPrivilege rt inst req method args =
     after_session inst req (u_checkHasVFSPrivilege rt inst req method args)"

subsection \<open>Package privilege\<close>

definition u_checkHasBlacklistedPackage :: "blacklister \<Rightarrow> session \<Rightarrow> string \<Rightarrow> outcome" where
  "u_checkHasBlacklistedPackage blk req packageName =
     (case blk req of
        (error, list) \<Rightarrow>
          if truthy error then Callback error (JBool False)
          else (case call_indexOf (js_or list (JArr [])) (JStr packageName) of
                  Inl e \<Rightarrow> Threw e
                | Inr i \<Rightarrow> Callback (JBool False) (JBool (i \<ge> 0))))"

definition notallowed :: "jsval \<Rightarrow> outcome" where
  "notallowed err = Callback (js_or err (JStr ''You are not allowed to load this Package'')) JUndefined"

text \<open>The value of \<^verbatim>\<open>packages && packages[packageName] && packages[packageName].groups\<close>.\<close>

definition package_groups :: "runtime \<Rightarrow> jsval \<Rightarrow> string \<Rightarrow> exn + jsval" where
  "package_groups rt packages packageName =
     (if \<not> truthy packages then Inr packages
      else case get_prop rt packages packageName of
             Inl e \<Rightarrow> Inl e
           | Inr p \<Rightarrow> if \<not> truthy p then Inr p else get_own p ''groups'')"

definition u_checkHasPackagePrivilege ::
  "runtime \<Rightarrow> server \<Rightarrow> blacklister \<Rightarrow> session \<Rightarrow> string \<Rightarrow> outcome" where
  "u_checkHasPackagePrivilege rt inst blk req packageName =
     (case package_groups rt (metadata inst) packageName of
        Inl e \<Rightarrow> Threw e
      | Inr g \<Rightarrow>
          if truthy g then
            (case u_checkHasGroup rt req g of
               Threw e \<Rightarrow> Threw e
             | Callback err res \<Rightarrow>
                 if truthy err then notallowed err
                 else if truthy res then
                   (case u_checkHasBlacklistedPackage blk req packageName of
                      Threw e \<Rightarrow> Threw e
                    | Callback err' res' \<Rightarrow>
                        if truthy err' \<or> \<not> truthy res' then notallowed err'
                        else Callback (JBool False) (JBool True))
                 else notallowed JUndefined)
          else Callback (JBool False) (JBool True))"

definition checkPackagePrivilege ::
  "runtime \<Rightarrow> server \<Rightarrow> blacklister \<Rightarrow> session \<Rightarrow> string \<Rightarrow> outcome" where
  "checkPackagePrivilege rt inst blk req packageName =
     after_session inst req (u_checkHasPackagePrivilege rt inst blk req packageName)"


section \<open>Method registration\<close>

text \<open>
  \<^verbatim>\<open>instance.api\<close> and \<^verbatim>\<open>instance.vfs\<close> map a method name to a function. A registered
  function is the handler function itself, or one of the two closures that
  \<^verbatim>\<open>registerAPIMethod\<close> and \<^verbatim>\<open>registerVFSMethod\<close> build around it; a closure remembers
  the name it was registered under and the function it wraps. The handler functions are
  the server's and stay abstract. An entry is present exactly when reading the name
  gives a function.
\<close>

datatype 'f registered = Unwrapped 'f | WrappedAPI string 'f | WrappedVFS string 'f

type_synonym 'f method_table = "string \<Rightarrow> 'f registered option"

definition ignorePrivilegesAPI :: "string list" where
  "ignorePrivilegesAPI = [''login'']"

definition ignorePrivilegesVFS :: "string list" where
  "ignorePrivilegesVFS = [''getMime'', ''getRealPath'']"

definition registerAPIMethod :: "'f method_table \<Rightarrow> string \<Rightarrow> 'f \<Rightarrow> 'f method_table" where
  "registerAPIMethod api fn fref =
     (if api fn = None then
        (if fn \<notin> set ignorePrivilegesAPI then api(fn \<mapsto> WrappedAPI fn fref)
         else api(fn \<mapsto> Unwrapped fref))
      else api)"

definition registerVFSMethod :: "'f method_table \<Rightarrow> string \<Rightarrow> 'f \<Rightarrow> 'f method_table" where
  "registerVFSMethod vfs fn fref =
     (if vfs fn = None then
        (if fn \<notin> set ignorePrivilegesVFS then vfs(fn \<mapsto> WrappedVFS fn fref)
         else vfs(fn \<mapsto> Unwrapped fref))
      else vfs)"

text \<open>\<^verbatim>\<open>registerMethods\<close> walks the keys of the VFS methods, then those of the API
  methods; the pair is (\<^verbatim>\<open>instance.api\<close>, \<^verbatim>\<open>instance.vfs\<close>).\<close>

definition registerMethods ::
  "'f method_table \<times> 'f method_table \<Rightarrow> (string \<times> 'f) list \<Rightarrow> (string \<times> 'f) list
     \<Rightarrow> 'f method_table \<times> 'f method_table" where
  "registerMethods tables api vfs =
     (let vfs' = fold (\<lambda>(fn, fref) t. registerVFSMethod t fn fref) vfs (snd tables);
          api' = fold (\<lambda>(fn, fref) t. registerAPIMethod t fn fref) api (fst tables)
      in (api', vfs'))"

text \<open>
  Calling a registered function. What is observed is the sequence of steps: a call of
  \<^verbatim>\<open>checkAPIPrivilege\<close> or \<^verbatim>\<open>checkVFSPrivilege\<close>, the caller's callback receiving an
  error, the wrapped function being applied, or an exception leaving the call.
\<close>

datatype 'f step = CheckAPI string | CheckVFS string | Reply jsval | Apply 'f | Raise exn

fun invoke :: "runtime \<Rightarrow> server \<Rightarrow> session \<Rightarrow> jsval \<Rightarrow> 'f registered \<Rightarrow> 'f step list" where
  "invoke rt inst req args (Unwrapped fref) = [Apply fref]"
| "invoke rt inst req args (WrappedAPI fn fref) =
     CheckAPI fn #
       (case checkAPIPrivilege rt inst req fn of
          Threw e \<Rightarrow> [Raise e]
        | Callback err res \<Rightarrow> if truthy err then [Reply err] else [Apply fref])"
| "invoke rt inst req args (WrappedVFS fn fref) =
     CheckAPI ''fs'' #
       (case checkAPIPrivilege rt inst req ''fs'' of
          Threw e \<Rightarrow> [Raise e]
        | Callback err res \<Rightarrow>
            if truthy err then [Reply err]
            else CheckVFS fn #
              (case checkVFSPrivilege rt inst req fn args of
                 Threw e \<Rightarrow> [Raise e]
               | Callback err' res' \<Rightarrow> if truthy err' then [Reply err'] else [Apply fref]))"

fun is_check :: "'f step \<Rightarrow> bool" where
  "is_check (CheckAPI fn) = True"
| "is_check (CheckVFS fn) = True"
| "is_check s = False"

fun is_api_check :: "'f step \<Rightarrow> bool" where
  "is_api_check (CheckAPI fn) = True"
| "is_api_check s = False"

fun is_vfs_check :: "'f step \<Rightarrow> bool" where
  "is_vfs_check (CheckVFS fn) = True"
| "is_vfs_check s = False"

text \<open>A check lets the call through when it calls back with a falsy error.\<close>

fun passed :: "outcome \<Rightarrow> bool" where
  "passed (Threw e) = False"
| "passed (Callback err res) = (\<not> truthy err)"

section \<open>Login and logout\<close>

text \<open>The methods that write the session return it with what the caller observes.\<close>

definition setUserData :: "runtime \<Rightarrow> session \<Rightarrow> jsval \<Rightarrow> outcome \<times> session" where
  "setUserData rt req data =
     (if data = JNull then
        (Callback (JBool False) (JBool True),
         session_set (session_set req ''username'' JNull) ''groups'' JNull)
      else
        (case get_own data ''username'' of
           Inl e \<Rightarrow> (Threw e, req)
         | Inr username \<Rightarrow>
             (let req' = session_set req ''username'' username
              in case get_own data ''groups'' of
                   Inl e \<Rightarrow> (Threw e, req')
                 | Inr groups \<Rightarrow>
                     (Callback (JBool False) (JBool True),
                      session_set req' ''groups'' (JSON_stringify rt groups)))))"

definition obj_get :: "(string \<times> jsval) list \<Rightarrow> string \<Rightarrow> jsval" where
  "obj_get kvs k = (case map_of kvs k of Some v \<Rightarrow> v | None \<Rightarrow> JUndefined)"

text \<open>
  \<^verbatim>\<open>onLogin\<close>. The login data is an object, given by its properties. The result lists
  what the caller's callback receives, in order: when the blacklist lookup reports an
  error the callback is called with it and then once more with the data.
\<close>

definition onLogin ::
  "runtime \<Rightarrow> blacklister \<Rightarrow> session \<Rightarrow> (string \<times> jsval) list \<Rightarrow> outcome list \<times> session" where
  "onLogin rt blk req data0 =
     (let data = set_prop data0 ''userSettings'' (js_or (obj_get data0 ''userSettings'') (JObj []))
      in case setUserData rt req (obj_get data ''userData'') of
           (Threw e, req') \<Rightarrow> ([Threw e], req')
         | (Callback err res, req') \<Rightarrow>
             if truthy (obj_get data ''blacklistedPackages'')
             then ([Callback (JBool False) (JObj data)], req')
             else (case blk req' of
                     (error, blacklist) \<Rightarrow>
                       if truthy error
                       then ([Callback error JUndefined, Callback (JBool False) (JObj data)], req')
                       else ([Callback (JBool False)
                                (JObj (set_prop data ''blacklistedPackages''
                                         (js_or blacklist (JArr []))))], req')))"

definition onLogout :: "runtime \<Rightarrow> session \<Rightarrow> outcome \<times> session" where
  "onLogout rt req =
     (case setUserData rt req JNull of
        (Threw e, req') \<Rightarrow> (Threw e, req')
      | (Callback err res, req') \<Rightarrow> (Callback (JBool False) (JBool True), req'))"

section \<open>System login and settings\<close>

text \<open>
  \<^verbatim>\<open>String.prototype.replace\<close> with a string pattern: the first occurrence is replaced,
  and in the replacement \<^verbatim>\<open>$$\<close> stands for a dollar sign, \<^verbatim>\<open>$&\<close> for the match, and a
  dollar sign followed by a backquote or a quote for the text before or after the match.
\<close>

fun split_first :: "string \<Rightarrow> string \<Rightarrow> (string \<times> string) option" where
  "split_first pat [] = (if pat = [] then Some ([], []) else None)"
| "split_first pat (c # cs) =
     (if prefix pat (c # cs) then Some ([], drop (length pat) (c # cs))
      else map_option (\<lambda>(pre, post). (c # pre, post)) (split_first pat cs))"

fun get_substitution :: "string \<Rightarrow> string \<Rightarrow> string \<Rightarrow> string \<Rightarrow> string" where
  "get_substitution matched pre post (c # d # r) =
     (if c = CHR ''$'' \<and> d = CHR ''$'' then CHR ''$'' # get_substitution matched pre post r
      else if c = CHR ''$'' \<and> d = CHR ''&'' then matched @ get_substitution matched pre post r
      else if c = CHR ''$'' \<and> d = CHR 0x60 then pre @ get_substitution matched pre post r
      else if c = CHR ''$'' \<and> d = CHR 0x27 then post @ get_substitution matched pre post r
      else c # get_substitution matched pre post (d # r))"
| "get_substitution matched pre post r = r"

definition js_replace :: "string \<Rightarrow> string \<Rightarrow> string \<Rightarrow> string" where
  "js_replace s pat replacement =
     (case split_first pat s of
        None \<Rightarrow> s
      | Some (pre, post) \<Rightarrow> pre @ get_substitution pat pre post replacement @ post)"

text \<open>The configuration of the system login: the settings path template and the paths
  of the groups and blacklist files.\<close>

record login_config =
  cfg_settings :: string
  cfg_groups :: string
  cfg_blacklist :: string

definition getSettingsPath :: "login_config \<Rightarrow> jsval \<Rightarrow> string" where
  "getSettingsPath cfg username =
     (if username = JStr ''root'' then ''/root''
      else js_replace (cfg_settings cfg) ''%USERNAME%'' (ToString username))"

text \<open>
  The file system is a collaborator. \<^verbatim>\<open>readFile\<close> passes an error or the file's
  content to its callback; \<^verbatim>\<open>mkdir\<close> and \<^verbatim>\<open>writeFile\<close> pass an error or a falsy value.
\<close>

datatype read_result = ReadFailed jsval | ReadOk string

record filesystem =
  fs_readFile :: "string \<Rightarrow> read_result"
  fs_mkdir :: "string \<Rightarrow> jsval"
  fs_writeFile :: "string \<Rightarrow> jsval \<Rightarrow> jsval"

text \<open>The three readers inside \<^verbatim>\<open>onSystemLogin\<close>.\<close>

definition login_getUserSettings :: "runtime \<Rightarrow> filesystem \<Rightarrow> login_config \<Rightarrow> string \<Rightarrow> jsval" where
  "login_getUserSettings rt fs cfg username =
     (case fs_readFile fs (getSettingsPath cfg (JStr username)) of
        ReadFailed err \<Rightarrow> JObj []
      | ReadOk sdata \<Rightarrow>
          (case JSON_parse rt (JStr sdata) of Inl e \<Rightarrow> JObj [] | Inr settings \<Rightarrow> settings))"

definition login_getUserGroups ::
  "runtime \<Rightarrow> filesystem \<Rightarrow> login_config \<Rightarrow> string \<Rightarrow> exn + jsval" where
  "login_getUserGroups rt fs cfg username =
     (let list =
            (case fs_readFile fs (cfg_groups cfg) of
               ReadFailed err \<Rightarrow> JObj []
             | ReadOk gdata \<Rightarrow>
                 (case JSON_parse rt (JStr gdata) of Inl e \<Rightarrow> JObj [] | Inr l \<Rightarrow> l))
      in case get_prop rt list username of
           Inl e \<Rightarrow> Inl e
         | Inr groups \<Rightarrow> Inr (js_or groups (JArr [])))"

definition login_getUserBlacklist ::
  "runtime \<Rightarrow> filesystem \<Rightarrow> login_config \<Rightarrow> string \<Rightarrow> jsval" where
  "login_getUserBlacklist rt fs cfg username =
     (case fs_readFile fs (cfg_blacklist cfg) of
        ReadFailed err \<Rightarrow> JArr []
      | ReadOk bdata \<Rightarrow>
          (case JSON_parse rt (JStr bdata) of
             Inl e \<Rightarrow> JArr []
           | Inr parsed \<Rightarrow>
               (case get_prop rt parsed username of
                  Inl e \<Rightarrow> JArr []
                | Inr blacklist \<Rightarrow> js_or blacklist (JArr []))))"

text \<open>\<^verbatim>\<open>onSystemLogin\<close>; \<open>uid\<close> is what the caller's \<^verbatim>\<open>getUserId\<close> passes on.\<close>

definition onSystemLogin ::
  "runtime \<Rightarrow> blacklister \<Rightarrow> filesystem \<Rightarrow> session \<Rightarrow> login_config \<Rightarrow> string \<Rightarrow> jsval
     \<Rightarrow> outcome list \<times> session" where
  "onSystemLogin rt blk fs req cfg username uid =
     (let settings = login_getUserSettings rt fs cfg username
      in case login_getUserGroups rt fs cfg username of
           Inl e \<Rightarrow> ([Threw e], req)
         | Inr groups \<Rightarrow>
             (let blacklist = login_getUserBlacklist rt fs cfg username
              in onLogin rt blk req
                   [(''userData'',
                       JObj [(''id'', uid), (''username'', JStr username),
                             (''name'', JStr username), (''groups'', groups)]),
                    (''userSettings'', settings),
                    (''blacklistedPackages'', blacklist)]))"

text \<open>\<^verbatim>\<open>onSystemSettings\<close>: what it asks of the file system, and what the callback
  receives. The function passed to \<^verbatim>\<open>mkdir\<close> takes no argument: whatever \<^verbatim>\<open>mkdir\<close>
  reports is dropped.\<close>

datatype fs_request = Mkdir string | WriteFile string jsval

definition onSystemSettings ::
  "runtime \<Rightarrow> filesystem \<Rightarrow> session \<Rightarrow> login_config \<Rightarrow> jsval \<Rightarrow> fs_request list \<times> outcome" where
  "onSystemSettings rt fs req cfg settings =
     (let uname = getUserName req;
          data = JSON_stringify rt settings;
          spath = getSettingsPath cfg uname;
          after_mkdir = (\<lambda>mkdir_result.
            (let err = fs_writeFile fs spath data
             in ([Mkdir (path_dirname rt spath), WriteFile spath data],
                 Callback (js_or err (JBool False)) (JBool (truthy err)))))
      in after_mkdir (fs_mkdir fs (path_dirname rt spath)))"

section \<open>A concrete runtime\<close>

text \<open>
  To run the handler on concrete sessions and files, the built-ins are given here for
  the part of JSON the handler's data lives in: the literals, integers, strings (with the
  two-character escapes and \<^verbatim>\<open>\u00XX\<close>), arrays and objects. A number with a fraction
  or an exponent and an escape of a character beyond the first 256 are outside this
  part. The parser descends with a budget of two steps per character, which no text
  exhausts (\<open>parse_value_budget\<close> below).
\<close>

definition is_ws :: "char \<Rightarrow> bool" where
  "is_ws c = (c = CHR '' '' \<or> c = CHR 0x09 \<or> c = CHR 0x0A \<or> c = CHR 0x0D)"

definition skip_ws :: "string \<Rightarrow> string" where
  "skip_ws s = dropWhile is_ws s"

definition hex_value :: "char \<Rightarrow> nat option" where
  "hex_value c = map_option fst (List.find (\<lambda>(v, d). d = c)
     (zip [0..<16] ''0123456789abcdef'' @ zip [10..<16] ''ABCDEF''))"

definition unescape :: "char \<Rightarrow> char option" where
  "unescape e =
     (if e = CHR 0x22 then Some (CHR 0x22)
      else if e = CHR 0x5C then Some (CHR 0x5C)
      else if e = CHR ''/'' then Some (CHR ''/'')
      else if e = CHR ''b'' then Some (CHR 0x08)
      else if e = CHR ''f'' then Some (CHR 0x0C)
      else if e = CHR ''n'' then Some (CHR 0x0A)
      else if e = CHR ''r'' then Some (CHR 0x0D)
      else if e = CHR ''t'' then Some (CHR 0x09)
      else None)"

definition unicode_escape :: "string \<Rightarrow> char option" where
  "unicode_escape ds =
     (case map hex_value ds of
        [Some a, Some b, Some c, Some d] \<Rightarrow>
          if a = 0 \<and> b = 0 then Some (char_of (16 * c + d)) else None
      | _ \<Rightarrow> None)"

text \<open>The characters of a string literal after its opening quote.\<close>

fun parse_string_chars :: "string \<Rightarrow> string \<Rightarrow> (string \<times> string) option" where
  "parse_string_chars [] acc = None"
| "parse_string_chars (c # cs) acc =
     (if c = CHR 0x22 then Some (rev acc, cs)
      else if c = CHR 0x5C then
        (case cs of
           [] \<Rightarrow> None
         | e # cs' \<Rightarrow>
             if e = CHR ''u'' then
               (case unicode_escape (take 4 cs') of
                  None \<Rightarrow> None
                | Some ch \<Rightarrow> parse_string_chars (drop 4 cs') (ch # acc))
             else
               (case unescape e of
                  None \<Rightarrow> None
                | Some ch \<Rightarrow> parse_string_chars cs' (ch # acc)))
      else if (of_char c :: nat) < 32 then None
      else parse_string_chars cs (c # acc))"

definition is_digit :: "char \<Rightarrow> bool" where
  "is_digit c = (48 \<le> (of_char c :: nat) \<and> (of_char c :: nat) \<le> 57)"

definition digits_value :: "string \<Rightarrow> nat" where
  "digits_value ds = foldl (\<lambda>a c. 10 * a + (of_char c - 48)) 0 ds"

text \<open>An integer literal: an optional minus sign, then \<^verbatim>\<open>0\<close> or digits not starting
  with \<^verbatim>\<open>0\<close>.\<close>

definition parse_number :: "string \<Rightarrow> (jsval \<times> string) option" where
  "parse_number s =
     (let negative = (s \<noteq> [] \<and> hd s = CHR ''-'');
          t = (if negative then tl s else s);
          ds = takeWhile is_digit t;
          r = dropWhile is_digit t
      in if ds = [] \<or> (hd ds = CHR ''0'' \<and> length ds > 1) then None
         else if r \<noteq> [] \<and> hd r \<in> set ''.eE'' then None
         else Some (JNum (if negative then - int (digits_value ds) else int (digits_value ds)), r))"

text \<open>A value that is not an array or an object: a literal, a string or a number.\<close>

definition parse_scalar :: "string \<Rightarrow> (jsval \<times> string) option" where
  "parse_scalar t =
     (if prefix ''null'' t then Some (JNull, drop 4 t)
      else if prefix ''true'' t then Some (JBool True, drop 4 t)
      else if prefix ''false'' t then Some (JBool False, drop 5 t)
      else if prefix [CHR 0x22] t then
        map_option (\<lambda>(str, r). (JStr str, r)) (parse_string_chars (tl t) [])
      else parse_number t)"

fun parse_value :: "nat \<Rightarrow> string \<Rightarrow> (jsval \<times> string) option"
  and parse_elements :: "nat \<Rightarrow> jsval list \<Rightarrow> string \<Rightarrow> (jsval \<times> string) option"
  and parse_members :: "nat \<Rightarrow> (string \<times> jsval) list \<Rightarrow> string \<Rightarrow> (jsval \<times> string) option"
where
  "parse_value 0 s = None"
| "parse_value (Suc n) s =
     (case skip_ws s of
        [] \<Rightarrow> None
      | c # r \<Rightarrow>
          if c = CHR ''['' then
            (case skip_ws r of
               [] \<Rightarrow> None
             | d # r' \<Rightarrow> if d = CHR '']'' then Some (JArr [], r') else parse_elements n [] r)
          else if c = CHR ''{'' then
            (case skip_ws r of
               [] \<Rightarrow> None
             | d # r' \<Rightarrow> if d = CHR ''}'' then Some (JObj [], r') else parse_members n [] r)
          else parse_scalar (c # r))"
| "parse_elements 0 acc s = None"
| "parse_elements (Suc n) acc s =
     (case parse_value n s of
        None \<Rightarrow> None
      | Some (v, r) \<Rightarrow>
          (case skip_ws r of
             [] \<Rightarrow> None
           | d # r' \<Rightarrow>
               if d = CHR '','' then parse_elements n (v # acc) r'
               else if d = CHR '']'' then Some (JArr (rev (v # acc)), r')
               else None))"
| "parse_members 0 acc s = None"
| "parse_members (Suc n) acc s =
     (case skip_ws s of
        [] \<Rightarrow> None
      | q # r \<Rightarrow>
          if q \<noteq> CHR 0x22 then None
          else (case parse_string_chars r [] of
                  None \<Rightarrow> None
                | Some (k, r1) \<Rightarrow>
                    (case skip_ws r1 of
                       [] \<Rightarrow> None
                     | c # r2 \<Rightarrow>
                         if c \<noteq> CHR '':'' then None
                         else (case parse_value n r2 of
                                 None \<Rightarrow> None
                               | Some (v, r3) \<Rightarrow>
                                   (case skip_ws r3 of
                                      [] \<Rightarrow> None
                                    | d # r4 \<Rightarrow>
                                        if d = CHR '','' then parse_members n (set_prop acc k v) r4
                                        else if d = CHR ''}'' then Some (JObj (set_prop acc k v), r4)
                                        else None)))))"

definition JSON_parse_text :: "string \<Rightarrow> jsval option" where
  "JSON_parse_text s =
     (case parse_value (2 * length s + 2) s of
        None \<Rightarrow> None
      | Some (v, r) \<Rightarrow> if skip_ws r = [] then Some v else None)"

text \<open>\<^verbatim>\<open>JSON.stringify\<close>: undefined and a function have no text; inside an array
  they are written \<^verbatim>\<open>null\<close>, and a property holding one of them is left out.\<close>

fun has_json_text :: "jsval \<Rightarrow> bool" where
  "has_json_text JUndefined = False"
| "has_json_text (JFun f) = False"
| "has_json_text v = True"

definition escape_char :: "char \<Rightarrow> string" where
  "escape_char c =
     (if c = CHR 0x22 then [CHR 0x5C, CHR 0x22]
      else if c = CHR 0x5C then [CHR 0x5C, CHR 0x5C]
      else if c = CHR 0x08 then [CHR 0x5C, CHR ''b'']
      else if c = CHR 0x0C then [CHR 0x5C, CHR ''f'']
      else if c = CHR 0x0A then [CHR 0x5C, CHR ''n'']
      else if c = CHR 0x0D then [CHR 0x5C, CHR ''r'']
      else if c = CHR 0x09 then [CHR 0x5C, CHR ''t'']
      else if (of_char c :: nat) < 32 then
        [CHR 0x5C, CHR ''u'', CHR ''0'', CHR ''0'',
         ''0123456789abcdef'' ! (of_char c div 16), ''0123456789abcdef'' ! (of_char c mod 16)]
      else [c])"

definition json_quote :: "string \<Rightarrow> string" where
  "json_quote s = CHR 0x22 # concat (map escape_char s) @ [CHR 0x22]"

fun serialize :: "jsval \<Rightarrow> string" where
  "serialize JUndefined = ''null''"
| "serialize JNull = ''null''"
| "serialize (JBool b) = (if b then ''true'' else ''false'')"
| "serialize (JNum n) = string_of_int n"
| "serialize (JStr s) = json_quote s"
| "serialize (JArr xs) = ''['' @ join '','' (map serialize xs) @ '']''"
| "serialize (JObj kvs) =
     ''{'' @ join '','' (map (\<lambda>kv. json_quote (fst kv) @ '':'' @ serialize (snd kv))
                          (filter (\<lambda>kv. has_json_text (snd kv)) kvs)) @ ''}''"
| "serialize (JFun f) = ''null''"

definition JSON_stringify_value :: "jsval \<Rightarrow> jsval" where
  "JSON_stringify_value v = (if has_json_text v then JStr (serialize v) else JUndefined)"

text \<open>\<^verbatim>\<open>path.dirname\<close> of POSIX paths: trailing slashes are skipped and the path is cut
  at the last slash before them.\<close>

definition posix_dirname :: "string \<Rightarrow> string" where
  "posix_dirname p =
     (if p = [] then ''.''
      else (let hasRoot = (hd p = CHR ''/'');
                r = dropWhile (\<lambda>c. c \<noteq> CHR ''/'') (dropWhile (\<lambda>c. c = CHR ''/'') (rev (tl p)))
            in if r = [] then (if hasRoot then ''/'' else ''.'')
               else if hasRoot \<and> length r = 1 then ''//''
               else take (length r) p))"

text \<open>
  What the values inherit. Every value but null and undefined ends its prototype chain in
  \<^verbatim>\<open>Object.prototype\<close>, whose members are listed first; \<^verbatim>\<open>constructor\<close> is the
  constructor of the value's kind and \<^verbatim>\<open>__proto__\<close> its prototype, an object. Arrays,
  strings, numbers and functions add the methods of their own prototypes, given here as
  the fifth edition of the language has them; a later edition adds more. All of them are
  functions, which the handler never calls: what matters to it is that they are there
  and truthy.
\<close>

definition object_members :: "string list" where
  "object_members =
     [''toString'', ''toLocaleString'', ''valueOf'', ''hasOwnProperty'', ''isPrototypeOf'',
      ''propertyIsEnumerable'', ''__defineGetter__'', ''__defineSetter__'',
      ''__lookupGetter__'', ''__lookupSetter__'']"

definition array_members :: "string list" where
  "array_members =
     [''concat'', ''join'', ''pop'', ''push'', ''reverse'', ''shift'', ''slice'', ''sort'',
      ''splice'', ''unshift'', ''indexOf'', ''lastIndexOf'', ''every'', ''some'', ''forEach'',
      ''map'', ''filter'', ''reduce'', ''reduceRight'']"

definition string_members :: "string list" where
  "string_members =
     [''charAt'', ''charCodeAt'', ''concat'', ''indexOf'', ''lastIndexOf'', ''localeCompare'',
      ''match'', ''replace'', ''search'', ''slice'', ''split'', ''substr'', ''substring'',
      ''toLowerCase'', ''toLocaleLowerCase'', ''toUpperCase'', ''toLocaleUpperCase'', ''trim'']"

fun constructor_name :: "jsval \<Rightarrow> string" where
  "constructor_name (JBool b) = ''Boolean''"
| "constructor_name (JNum n) = ''Number''"
| "constructor_name (JStr s) = ''String''"
| "constructor_name (JArr xs) = ''Array''"
| "constructor_name (JFun f) = ''Function''"
| "constructor_name v = ''Object''"

fun kind_members :: "jsval \<Rightarrow> string list" where
  "kind_members (JNum n) = [''toFixed'', ''toExponential'', ''toPrecision'']"
| "kind_members (JStr s) = string_members"
| "kind_members (JArr xs) = array_members"
| "kind_members (JFun f) = [''apply'', ''call'', ''bind'']"
| "kind_members v = []"

definition node_inherited :: "jsval \<Rightarrow> string \<Rightarrow> jsval option" where
  "node_inherited v k =
     (if nullish v then None
      else if k = ''constructor'' then Some (JFun (constructor_name v))
      else if k = ''__proto__'' then Some (JObj [])
      else if k \<in> set (kind_members v @ object_members) then Some (JFun k)
      else None)"

definition node :: runtime where
  "node = \<lparr> parse_text = JSON_parse_text,
            stringify_value = JSON_stringify_value,
            path_dirname = posix_dirname,
            inherited_member = node_inherited \<rparr>"

text \<open>A plain string needs no escaping: no quote, no backslash, no control character.\<close>

definition plain_char :: "char \<Rightarrow> bool" where
  "plain_char c = (c \<noteq> CHR 0x22 \<and> c \<noteq> CHR 0x5C \<and> 32 \<le> (of_char c :: nat))"

definition plain :: "string \<Rightarrow> bool" where
  "plain s = list_all plain_char s"

section \<open>Concrete sessions and servers\<close>

definition fresh_session :: session where
  "fresh_session = (\<lambda>k. JUndefined)"

definition logged_in :: "string \<Rightarrow> string \<Rightarrow> session" where
  "logged_in username groups_text =
     session_set (session_set fresh_session ''username'' (JStr username)) ''groups'' (JStr groups_text)"

definition users_session :: session where
  \<open>users_session = logged_in ''bob'' ''["users"]''\<close>

definition editors_session :: session where
  \<open>editors_session = logged_in ''alice'' ''["editors"]''\<close>

definition admin_session :: session where
  \<open>admin_session = logged_in ''carol'' ''["admin"]''\<close>

text \<open>A session whose username holds a dollar sign.\<close>

definition dollar_session :: session where
  \<open>dollar_session = logged_in ''a$&b'' ''["users"]''\<close>

text \<open>
  A server for the examples. Its resolver reads the protocol off the path and throws for
  a path that names none. The API table asks for \<^verbatim>\<open>users\<close> on \<^verbatim>\<open>fs\<close> and for
  \<^verbatim>\<open>admin\<close> on a method that happens to be called \<^verbatim>\<open>users\<close>; the VFS table asks for
  \<^verbatim>\<open>trusted\<close> on the \<^verbatim>\<open>home\<close> mount; the package \<^verbatim>\<open>foo/bar\<close> asks for
  \<^verbatim>\<open>editors\<close>.
\<close>

definition example_getRealPath :: "jsval \<Rightarrow> session \<Rightarrow> exn + jsval" where
  "example_getRealPath p req =
     (case p of
        JStr s \<Rightarrow>
          (case split_first ''://'' s of
             Some (proto, rest) \<Rightarrow>
               Inr (JObj [(''protocol'', JStr (proto @ ''://'')), (''path'', JStr rest)])
           | None \<Rightarrow> Inl (Thrown (JStr ''Invalid path'')))
      | _ \<Rightarrow> Inl (Thrown (JStr ''Invalid path'')))"

definition example_server :: server where
  "example_server =
     \<lparr> setup_nw = False,
       api_groups = JObj [(''fs'', JArr [JStr ''users'']), (''users'', JArr [JStr ''admin''])],
       vfs_groups = JObj [(''home'', JArr [JStr ''trusted''])],
       metadata = JObj [(''foo/bar'', JObj [(''groups'', JArr [JStr ''editors''])]),
                        (''free/app'', JObj [(''name'', JStr ''Free'')])],
       vfs_getRealPath = example_getRealPath \<rparr>"

definition trusted_server :: server where
  "trusted_server = example_server \<lparr> setup_nw := True \<rparr>"

definition blacklisting :: "string list \<Rightarrow> blacklister" where
  "blacklisting names req = (JBool False, JArr (map JStr names))"

text \<open>The handler functions of the examples are known by name; the login data is the
  one the NW handler passes to \<^verbatim>\<open>onLogin\<close>.\<close>

definition example_api :: "string method_table" where
  "example_api = registerAPIMethod Map.empty ''curl'' ''curl handler''"

definition example_vfs :: "string method_table" where
  "example_vfs = registerVFSMethod Map.empty ''read'' ''read handler''"

definition nw_login_data :: "(string \<times> jsval) list" where
  "nw_login_data =
     [(''userData'',
         JObj [(''id'', JNum 0), (''username'', JStr ''nw''), (''name'', JStr ''NW.js User''),
               (''groups'', JArr [JStr ''admin''])])]"

text \<open>A login configuration, a file system on which nothing works (the settings file is
  there but cut short, the other files are missing, and no directory or file can be
  written), and one on which the registries are in place and writing succeeds.\<close>

definition example_login_config :: login_config where
  "example_login_config =
     \<lparr> cfg_settings = ''/home/%USERNAME%/.osjs/settings.json'',
       cfg_groups = ''/etc/osjs/groups.json'',
       cfg_blacklist = ''/etc/osjs/blacklist.json'' \<rparr>"

definition broken_files :: filesystem where
  \<open>broken_files =
     \<lparr> fs_readFile = (\<lambda>path. if path = ''/home/alice/.osjs/settings.json''
                               then ReadOk ''{"theme": "da'' else ReadFailed (JStr ''ENOENT'')),
       fs_mkdir = (\<lambda>dir. JStr ''EACCES''),
       fs_writeFile = (\<lambda>path data. JStr ''EACCES'') \<rparr>\<close>

definition working_files :: filesystem where
  \<open>working_files =
     \<lparr> fs_readFile = (\<lambda>path.
          if path = ''/home/alice/.osjs/settings.json'' then ReadOk ''{"theme": "dark"}''
          else if path = ''/etc/osjs/groups.json'' then ReadOk ''{"alice": ["editors"]}''
          else if path = ''/etc/osjs/blacklist.json'' then ReadOk ''{"alice": ["foo/bar"]}''
          else ReadFailed (JStr ''ENOENT'')),
       fs_mkdir = (\<lambda>dir. JStr ''EEXIST''),
       fs_writeFile = (\<lambda>path data. JNull) \<rparr>\<close>

text \<open>A file is unusable when it cannot be read or its content is not JSON.\<close>

definition file_unusable :: "runtime \<Rightarrow> filesystem \<Rightarrow> string \<Rightarrow> bool" where
  "file_unusable rt fs path =
     (case fs_readFile fs path of
        ReadFailed err \<Rightarrow> True
      | ReadOk content \<Rightarrow> parse_text rt content = None)"

section \<open>The specification's wording\<close>

text \<open>
  The group decision as the specification words it: allowed when the requirement is
  \<^verbatim>\<open>false\<close> or absent, when the user holds \<^verbatim>\<open>admin\<close>, or when the user's groups
  include every required group, a single string counting as a set of one; denied in all
  other cases.
\<close>

definition spec_group_allows :: "string list \<Rightarrow> jsval \<Rightarrow> bool" where
  "spec_group_allows gs r =
     (r = JBool False \<or> nullish r \<or> ''admin'' \<in> set gs \<or>
      (case r of
         JStr s \<Rightarrow> s \<in> set gs
       | JArr ps \<Rightarrow> set ps \<subseteq> JStr ` set gs
       | _ \<Rightarrow> False))"

text \<open>The list \<^verbatim>\<open>_checkHasGroup\<close> walks for a truthy requirement: the array itself,
  or the one value.\<close>

definition required_list :: "jsval \<Rightarrow> jsval list" where
  "required_list r = (case r of JArr ps \<Rightarrow> ps | _ \<Rightarrow> [r])"

text \<open>
  The settings path as the specification words it: the fixed path \<^verbatim>\<open>/root\<close> for root,
  and otherwise the template with \<^verbatim>\<open>%USERNAME%\<close> replaced by the username, character
  for character. The placeholder is replaced where it first occurs.
\<close>

definition spec_settings_path :: "string \<Rightarrow> string \<Rightarrow> string" where
  "spec_settings_path template username =
     (if username = ''root'' then ''/root''
      else case split_first ''%USERNAME%'' template of
             None \<Rightarrow> template
           | Some (pre, post) \<Rightarrow> pre @ username @ post)"

section \<open>Properties\<close>

subsection \<open>Property reads\<close>

lemma get_own_nullish [simp]:
  "get_own JUndefined k = Inl TypeError"
  "get_own JNull k = Inl TypeError"
  by (simp_all add: get_own_def)

lemma get_own_object [simp]: "get_own (JObj kvs) k = Inr (obj_get kvs k)"
  by (simp add: get_own_def obj_get_def)

lemma get_own_total: "\<not> nullish v \<Longrightarrow> \<exists>x. get_own v k = Inr x"
  by (simp add: get_own_def)

text \<open>A computed read is the own read wherever the value inherits nothing of that
  name, and it finds the inherited member where the value has no own property.\<close>

lemma get_prop_not_inherited:
  "inherited_member rt v k = None \<Longrightarrow> get_prop rt v k = get_own v k"
  by (simp add: get_prop_def get_own_def split: option.split)

lemma get_prop_inherited:
  "\<not> nullish v \<Longrightarrow> own_prop v k = None \<Longrightarrow> inherited_member rt v k = Some m
     \<Longrightarrow> get_prop rt v k = Inr m"
  by (simp add: get_prop_def)

subsection \<open>The budget of the parser\<close>

lemma skip_ws_length: "length (skip_ws s) \<le> length s"
  by (simp add: skip_ws_def length_dropWhile_le)

lemma skip_ws_Cons_shorter: "skip_ws s = c # r \<Longrightarrow> length r < length s"
  using skip_ws_length [of s] by simp

lemma parse_string_chars_shorter:
  "parse_string_chars cs acc = Some (str, r) \<Longrightarrow> length r < length cs"
proof (induction cs arbitrary: acc rule: length_induct)
  case (1 cs)
  note IH = "1.IH" [rule_format]
  show ?case
  proof (cases cs)
    case Nil
    with "1.prems" show ?thesis by simp
  next
    case (Cons c cs1)
    consider (quote) "c = CHR 0x22"
      | (escape) "c \<noteq> CHR 0x22" "c = CHR 0x5C"
      | (plain) "c \<noteq> CHR 0x22" "c \<noteq> CHR 0x5C"
      by blast
    then show ?thesis
    proof cases
      case quote
      with "1.prems" Cons show ?thesis by simp
    next
      case plain
      with "1.prems" Cons have "parse_string_chars cs1 (c # acc) = Some (str, r)"
        by (simp split: if_splits)
      moreover have "length cs1 < length cs" using Cons by simp
      ultimately have "length r < length cs1" using IH by blast
      with Cons show ?thesis by simp
    next
      case escape
      show ?thesis
      proof (cases cs1)
        case Nil
        with "1.prems" Cons escape show ?thesis by simp
      next
        case (Cons e cs2)
        show ?thesis
        proof (cases "e = CHR ''u''")
          case True
          with "1.prems" \<open>cs = c # cs1\<close> Cons escape
          obtain ch where "parse_string_chars (drop 4 cs2) (ch # acc) = Some (str, r)"
            by (simp split: option.splits)
          moreover have "length (drop 4 cs2) < length cs"
            using \<open>cs = c # cs1\<close> Cons by simp
          ultimately have "length r < length (drop 4 cs2)" using IH by blast
          with \<open>cs = c # cs1\<close> Cons show ?thesis by simp
        next
          case False
          with "1.prems" \<open>cs = c # cs1\<close> Cons escape
          obtain ch where "parse_string_chars cs2 (ch # acc) = Some (str, r)"
            by (simp split: option.splits)
          moreover have "length cs2 < length cs"
            using \<open>cs = c # cs1\<close> Cons by simp
          ultimately have "length r < length cs2" using IH by blast
          with \<open>cs = c # cs1\<close> Cons show ?thesis by simp
        qed
      qed
    qed
  qed
qed

lemma parse_number_shorter: "parse_number s = Some (v, r) \<Longrightarrow> length r < length s"
proof -
  assume a: "parse_number s = Some (v, r)"
  define t where "t = (if s \<noteq> [] \<and> hd s = CHR ''-'' then tl s else s)"
  from a have ds: "takeWhile is_digit t \<noteq> []" and r: "r = dropWhile is_digit t"
    by (auto simp: parse_number_def Let_def t_def split: if_splits)
  have "length (takeWhile is_digit t) + length (dropWhile is_digit t) = length t"
    by (metis length_append takeWhile_dropWhile_id)
  with ds r have "length r < length t" by (cases "takeWhile is_digit t") auto
  moreover have "length t \<le> length s" by (cases s) (auto simp: t_def)
  ultimately show ?thesis by simp
qed

lemma prefix_drop_shorter:
  "prefix p t \<Longrightarrow> p \<noteq> [] \<Longrightarrow> 0 < k \<Longrightarrow> length (drop k t) < length t"
  by (auto simp: prefix_def)

lemma parse_scalar_shorter:
  assumes "parse_scalar t = Some (v, r)"
  shows "length r < length t"
proof -
  consider (lit_null) "prefix ''null'' t"
    | (lit_true) "\<not> prefix ''null'' t" "prefix ''true'' t"
    | (lit_false) "\<not> prefix ''null'' t" "\<not> prefix ''true'' t" "prefix ''false'' t"
    | (str) "\<not> prefix ''null'' t" "\<not> prefix ''true'' t" "\<not> prefix ''false'' t"
        "prefix [CHR 0x22] t"
    | (num) "\<not> prefix ''null'' t" "\<not> prefix ''true'' t" "\<not> prefix ''false'' t"
        "\<not> prefix [CHR 0x22] t"
    by blast
  then show ?thesis
  proof cases
    case lit_null
    with assms have "r = drop 4 t" by (auto simp: parse_scalar_def)
    with prefix_drop_shorter [OF lit_null, of 4] show ?thesis by simp
  next
    case lit_true
    with assms have "r = drop 4 t" by (auto simp: parse_scalar_def)
    with prefix_drop_shorter [OF lit_true(2), of 4] show ?thesis by simp
  next
    case lit_false
    with assms have "r = drop 5 t" by (auto simp: parse_scalar_def)
    with prefix_drop_shorter [OF lit_false(3), of 5] show ?thesis by simp
  next
    case str
    with assms obtain x where "parse_string_chars (tl t) [] = Some (x, r)"
      by (auto simp: parse_scalar_def)
    from parse_string_chars_shorter [OF this] str(4) show ?thesis
      by (cases t) auto
  next
    case num
    with assms have "parse_number t = Some (v, r)" by (simp add: parse_scalar_def)
    then show ?thesis by (rule parse_number_shorter)
  qed
qed

lemma parse_value_Suc_shorter:
  assumes E: "\<And>acc s v r. parse_elements n acc s = Some (v, r) \<Longrightarrow> length r < length s"
    and M: "\<And>acc s v r. parse_members n acc s = Some (v, r) \<Longrightarrow> length r < length s"
    and P: "parse_value (Suc n) s = Some (v, r)"
  shows "length r < length s"
proof (cases "skip_ws s")
  case Nil
  with P show ?thesis by simp
next
  case (Cons c rest)
  note outer = Cons
  have rest: "length rest < length s" using Cons by (rule skip_ws_Cons_shorter)
  consider (arr) "c = CHR ''[''" | (obj) "c \<noteq> CHR ''[''" "c = CHR ''{''"
    | (scalar) "c \<noteq> CHR ''[''" "c \<noteq> CHR ''{''"
    by blast
  then show ?thesis
  proof cases
    case arr
    show ?thesis
    proof (cases "skip_ws rest")
      case Nil
      with P outer arr show ?thesis by simp
    next
      case (Cons d r')
      show ?thesis
      proof (cases "d = CHR '']''")
        case True
        with P outer Cons arr have "r = r'" by simp
        with skip_ws_Cons_shorter [OF Cons] rest show ?thesis by simp
      next
        case False
        with P outer Cons arr have "parse_elements n [] rest = Some (v, r)" by simp
        from E [OF this] rest show ?thesis by simp
      qed
    qed
  next
    case obj
    show ?thesis
    proof (cases "skip_ws rest")
      case Nil
      with P outer obj show ?thesis by simp
    next
      case (Cons d r')
      show ?thesis
      proof (cases "d = CHR ''}''")
        case True
        with P outer Cons obj have "r = r'" by simp
        with skip_ws_Cons_shorter [OF Cons] rest show ?thesis by simp
      next
        case False
        with P outer Cons obj have "parse_members n [] rest = Some (v, r)" by simp
        from M [OF this] rest show ?thesis by simp
      qed
    qed
  next
    case scalar
    with P outer have "parse_scalar (c # rest) = Some (v, r)" by simp
    from parse_scalar_shorter [OF this] skip_ws_length [of s] outer show ?thesis by simp
  qed
qed

lemma parse_elements_Suc_shorter:
  assumes V: "\<And>s v r. parse_value n s = Some (v, r) \<Longrightarrow> length r < length s"
    and E: "\<And>acc s v r. parse_elements n acc s = Some (v, r) \<Longrightarrow> length r < length s"
    and P: "parse_elements (Suc n) acc s = Some (v, r)"
  shows "length r < length s"
proof -
  from P obtain v1 r1 where v1: "parse_value n s = Some (v1, r1)"
    by (auto split: option.splits)
  from V [OF v1] have r1: "length r1 < length s" .
  from P v1 obtain d r2 where d: "skip_ws r1 = d # r2"
    by (auto split: list.splits)
  from skip_ws_Cons_shorter [OF d] r1 have r2: "length r2 < length s" by simp
  show ?thesis
  proof (cases "d = CHR '',''")
    case True
    with P v1 d have "parse_elements n (v1 # acc) r2 = Some (v, r)" by simp
    from E [OF this] r2 show ?thesis by simp
  next
    case False
    with P v1 d have "r = r2" by (simp split: if_splits)
    with r2 show ?thesis by simp
  qed
qed

lemma parse_members_Suc_shorter:
  assumes V: "\<And>s v r. parse_value n s = Some (v, r) \<Longrightarrow> length r < length s"
    and M: "\<And>acc s v r. parse_members n acc s = Some (v, r) \<Longrightarrow> length r < length s"
    and P: "parse_members (Suc n) acc s = Some (v, r)"
  shows "length r < length s"
proof -
  from P obtain q r0 where q: "skip_ws s = q # r0" and qq: "q = CHR 0x22"
    by (auto split: list.splits if_splits)
  from skip_ws_Cons_shorter [OF q] have r0: "length r0 < length s" .
  from P q qq obtain k r1 where k: "parse_string_chars r0 [] = Some (k, r1)"
    by (auto split: option.splits)
  from parse_string_chars_shorter [OF k] r0 have r1: "length r1 < length s" by simp
  from P q qq k obtain c r2 where c: "skip_ws r1 = c # r2" and cc: "c = CHR '':''"
    by (auto split: list.splits if_splits)
  from skip_ws_Cons_shorter [OF c] r1 have r2: "length r2 < length s" by simp
  from P q qq k c cc obtain v3 r3 where v3: "parse_value n r2 = Some (v3, r3)"
    by (auto split: option.splits)
  from V [OF v3] r2 have r3: "length r3 < length s" by simp
  from P q qq k c cc v3 obtain d r4 where d: "skip_ws r3 = d # r4"
    by (auto split: list.splits)
  from skip_ws_Cons_shorter [OF d] r3 have r4: "length r4 < length s" by simp
  show ?thesis
  proof (cases "d = CHR '',''")
    case True
    with P q qq k c cc v3 d have "parse_members n (set_prop acc k v3) r4 = Some (v, r)" by simp
    from M [OF this] r4 show ?thesis by simp
  next
    case False
    with P q qq k c cc v3 d have "r = r4" by (simp split: if_splits)
    with r4 show ?thesis by simp
  qed
qed

text \<open>Whatever a parser returns as the rest is shorter than what it was given.\<close>

lemma parse_shorter:
  "(\<forall>s v r. parse_value n s = Some (v, r) \<longrightarrow> length r < length s)
   \<and> (\<forall>acc s v r. parse_elements n acc s = Some (v, r) \<longrightarrow> length r < length s)
   \<and> (\<forall>acc s v r. parse_members n acc s = Some (v, r) \<longrightarrow> length r < length s)"
proof (induction n)
  case 0
  show ?case by simp
next
  case (Suc n)
  then have V: "\<And>s v r. parse_value n s = Some (v, r) \<Longrightarrow> length r < length s"
    and E: "\<And>acc s v r. parse_elements n acc s = Some (v, r) \<Longrightarrow> length r < length s"
    and M: "\<And>acc s v r. parse_members n acc s = Some (v, r) \<Longrightarrow> length r < length s"
    by blast+
  show ?case
  proof (intro conjI allI impI)
    fix s v r
    assume P: "parse_value (Suc n) s = Some (v, r)"
    show "length r < length s"
      by (rule parse_value_Suc_shorter [where n = n, OF _ _ P]) (erule E, erule M)
  next
    fix acc s v r
    assume P: "parse_elements (Suc n) acc s = Some (v, r)"
    show "length r < length s"
      by (rule parse_elements_Suc_shorter [where n = n, OF _ _ P]) (erule V, erule E)
  next
    fix acc s v r
    assume P: "parse_members (Suc n) acc s = Some (v, r)"
    show "length r < length s"
      by (rule parse_members_Suc_shorter [where n = n, OF _ _ P]) (erule V, erule M)
  qed
qed


lemmas parse_value_shorter = parse_shorter [THEN conjunct1, rule_format]

lemma parse_value_Suc_cong:
  assumes E: "\<And>acc s'. length s' < length s \<Longrightarrow> parse_elements k acc s' = parse_elements j acc s'"
    and M: "\<And>acc s'. length s' < length s \<Longrightarrow> parse_members k acc s' = parse_members j acc s'"
  shows "parse_value (Suc k) s = parse_value (Suc j) s"
proof (cases "skip_ws s")
  case Nil
  then show ?thesis by (simp split: list.split)
next
  case (Cons c rest)
  then have "length rest < length s" by (rule skip_ws_Cons_shorter)
  then have "parse_elements k [] rest = parse_elements j [] rest"
    and "parse_members k [] rest = parse_members j [] rest"
    by (rule E, rule M)
  with Cons show ?thesis by (simp split: list.split)
qed

lemma parse_elements_Suc_cong:
  assumes V: "parse_value k s = parse_value j s"
    and E: "\<And>acc s'. length s' + 1 < length s \<Longrightarrow> parse_elements k acc s' = parse_elements j acc s'"
  shows "parse_elements (Suc k) acc s = parse_elements (Suc j) acc s"
proof (cases "parse_value j s")
  case None
  with V show ?thesis by (simp split: list.split)
next
  case (Some x)
  obtain v r1 where x: "x = (v, r1)" by (cases x)
  from Some x have r1: "length r1 < length s" by (auto dest: parse_value_shorter)
  show ?thesis
  proof (cases "skip_ws r1")
    case Nil
    with V Some x show ?thesis by (simp split: list.split)
  next
    case (Cons d r2)
    from skip_ws_Cons_shorter [OF Cons] r1 have "length r2 + 1 < length s" by simp
    then have "parse_elements k (v # acc) r2 = parse_elements j (v # acc) r2" by (rule E)
    with V Some x Cons show ?thesis by (simp split: list.split)
  qed
qed

lemma parse_members_Suc_cong:
  assumes V: "\<And>s'. length s' < length s \<Longrightarrow> parse_value k s' = parse_value j s'"
    and M: "\<And>acc s'. length s' + 1 < length s \<Longrightarrow> parse_members k acc s' = parse_members j acc s'"
  shows "parse_members (Suc k) acc s = parse_members (Suc j) acc s"
proof (cases "skip_ws s")
  case Nil
  then show ?thesis by (simp split: list.split)
next
  case (Cons q r0)
  note q = Cons
  from skip_ws_Cons_shorter [OF q] have r0: "length r0 < length s" .
  show ?thesis
  proof (cases "parse_string_chars r0 []")
    case None
    with q show ?thesis by (simp split: list.split)
  next
    case (Some x)
    obtain key r1 where x: "x = (key, r1)" by (cases x)
    from parse_string_chars_shorter Some x r0 have r1: "length r1 < length s" by fastforce
    show ?thesis
    proof (cases "skip_ws r1")
      case Nil
      with q Some x show ?thesis by (simp split: list.split)
    next
      case (Cons c r2)
      note c = Cons
      from skip_ws_Cons_shorter [OF c] r1 have r2: "length r2 < length s" by simp
      note V2 = V [OF r2]
      show ?thesis
      proof (cases "parse_value j r2")
        case None
        with q Some x c V2 show ?thesis by (simp split: list.split)
      next
        case (Some y)
        note y = Some
        obtain v3 r3 where y3: "y = (v3, r3)" by (cases y)
        from y y3 r2 have r3: "length r3 < length s" by (auto dest: parse_value_shorter)
        show ?thesis
        proof (cases "skip_ws r3")
          case Nil
          with q \<open>parse_string_chars r0 [] = Some x\<close> x c V2 y y3 show ?thesis by (simp split: list.split)
        next
          case (Cons d r4)
          from skip_ws_Cons_shorter [OF Cons] r3 have "length r4 + 1 < length s" by simp
          then have "parse_members k (set_prop acc key v3) r4 = parse_members j (set_prop acc key v3) r4"
            by (rule M)
          with q \<open>parse_string_chars r0 [] = Some x\<close> x c V2 y y3 Cons show ?thesis by (simp split: list.split)
        qed
      qed
    qed
  qed
qed



text \<open>
  With two steps per character and two to spare, the budget plays no part: every larger
  budget gives the same result, so a text is refused for its syntax and never for its
  length or depth.
\<close>

lemma parse_budget:
  "(\<forall>s m. 2 * length s + 2 \<le> n \<longrightarrow> 2 * length s + 2 \<le> m \<longrightarrow> parse_value n s = parse_value m s)
   \<and> (\<forall>acc s m. 2 * length s + 3 \<le> n \<longrightarrow> 2 * length s + 3 \<le> m \<longrightarrow>
          parse_elements n acc s = parse_elements m acc s)
   \<and> (\<forall>acc s m. 2 * length s + 3 \<le> n \<longrightarrow> 2 * length s + 3 \<le> m \<longrightarrow>
          parse_members n acc s = parse_members m acc s)"
proof (induction n)
  case 0
  show ?case by simp
next
  case (Suc k)
  note V = Suc.IH [THEN conjunct1, rule_format]
  note E = Suc.IH [THEN conjunct2, THEN conjunct1, rule_format]
  note M = Suc.IH [THEN conjunct2, THEN conjunct2, rule_format]
  show ?case
  proof (intro conjI allI impI)
    fix s :: string and m :: nat
    assume a: "2 * length s + 2 \<le> Suc k" and b: "2 * length s + 2 \<le> m"
    from b obtain j where m: "m = Suc j" by (cases m) auto
    have "parse_value (Suc k) s = parse_value (Suc j) s"
    proof (rule parse_value_Suc_cong)
      fix acc :: "jsval list" and s' :: string
      assume "length s' < length s"
      with a b m have "2 * length s' + 3 \<le> k" and "2 * length s' + 3 \<le> j" by simp_all
      then show "parse_elements k acc s' = parse_elements j acc s'" by (rule E)
    next
      fix acc :: "(string \<times> jsval) list" and s' :: string
      assume "length s' < length s"
      with a b m have "2 * length s' + 3 \<le> k" and "2 * length s' + 3 \<le> j" by simp_all
      then show "parse_members k acc s' = parse_members j acc s'" by (rule M)
    qed
    then show "parse_value (Suc k) s = parse_value m s" unfolding m .
  next
    fix acc :: "jsval list" and s :: string and m :: nat
    assume a: "2 * length s + 3 \<le> Suc k" and b: "2 * length s + 3 \<le> m"
    from b obtain j where m: "m = Suc j" by (cases m) auto
    have "parse_elements (Suc k) acc s = parse_elements (Suc j) acc s"
    proof (rule parse_elements_Suc_cong)
      from a b m have "2 * length s + 2 \<le> k" and "2 * length s + 2 \<le> j" by simp_all
      then show "parse_value k s = parse_value j s" by (rule V)
    next
      fix acc :: "jsval list" and s' :: string
      assume "length s' + 1 < length s"
      with a b m have "2 * length s' + 3 \<le> k" and "2 * length s' + 3 \<le> j" by simp_all
      then show "parse_elements k acc s' = parse_elements j acc s'" by (rule E)
    qed
    then show "parse_elements (Suc k) acc s = parse_elements m acc s" unfolding m .
  next
    fix acc :: "(string \<times> jsval) list" and s :: string and m :: nat
    assume a: "2 * length s + 3 \<le> Suc k" and b: "2 * length s + 3 \<le> m"
    from b obtain j where m: "m = Suc j" by (cases m) auto
    have "parse_members (Suc k) acc s = parse_members (Suc j) acc s"
    proof (rule parse_members_Suc_cong)
      fix s' :: string
      assume "length s' < length s"
      with a b m have "2 * length s' + 2 \<le> k" and "2 * length s' + 2 \<le> j" by simp_all
      then show "parse_value k s' = parse_value j s'" by (rule V)
    next
      fix acc :: "(string \<times> jsval) list" and s' :: string
      assume "length s' + 1 < length s"
      with a b m have "2 * length s' + 3 \<le> k" and "2 * length s' + 3 \<le> j" by simp_all
      then show "parse_members k acc s' = parse_members j acc s'" by (rule M)
    qed
    then show "parse_members (Suc k) acc s = parse_members m acc s" unfolding m .
  qed
qed

lemma parse_value_budget:
  "2 * length s + 2 \<le> n \<Longrightarrow> parse_value n s = parse_value (2 * length s + 2) s"
  by (rule parse_budget [THEN conjunct1, rule_format]) simp_all

lemma JSON_parse_text_budget:
  "2 * length s + 2 \<le> n \<Longrightarrow>
     JSON_parse_text s =
       (case parse_value n s of
          None \<Rightarrow> None
        | Some (v, r) \<Rightarrow> if skip_ws r = [] then Some v else None)"
  by (simp add: JSON_parse_text_def parse_value_budget)

subsection \<open>The group check\<close>

lemma array_indexOf_neg:
  "0 \<le> i \<Longrightarrow> (array_indexOf xs p i < 0) = (\<not> list_ex (\<lambda>x. strict_eq x p) xs)"
  by (induction xs arbitrary: i) auto

lemma list_ex_strings: "list_ex (\<lambda>x. strict_eq x p) (map JStr gs) = (p \<in> JStr ` set gs)"
  by (induction gs) auto

lemma forEach_groupnames_array:
  "forEach_groupnames (JArr xs) ps a =
     Inr (a \<and> list_all (\<lambda>p. list_ex (\<lambda>x. strict_eq x p) xs) ps)"
  by (induction ps arbitrary: a) (auto simp: array_indexOf_neg)

lemma normalize_groupnames_eq:
  "normalize_groupnames r = JArr (if truthy r then required_list r else [])"
  by (cases r) (auto simp: normalize_groupnames_def js_or_def required_list_def Let_def)

lemma checkHasGroup_array:
  assumes "getUserGroups rt req = JArr xs"
  shows "u_checkHasGroup rt req r =
     Callback (JBool False)
       (JBool (list_ex (\<lambda>x. strict_eq x (JStr ''admin'')) xs
               \<or> \<not> truthy r
               \<or> list_all (\<lambda>p. list_ex (\<lambda>x. strict_eq x p) xs) (required_list r)))"
  using assms
  by (auto simp: u_checkHasGroup_def normalize_groupnames_eq Let_def array_indexOf_neg
      forEach_groupnames_array)

lemma checkHasGroup_strings:
  assumes "getUserGroups rt req = JArr (map JStr gs)"
  shows "u_checkHasGroup rt req r =
     Callback (JBool False)
       (JBool (\<not> truthy r \<or> ''admin'' \<in> set gs \<or> set (required_list r) \<subseteq> JStr ` set gs))"
  using checkHasGroup_array [OF assms, of r]
  by (auto simp: list_ex_strings list_all_iff)

lemma users_session_groups: "getUserGroups node users_session = JArr (map JStr [''users''])"
  by code_simp

lemma editors_session_groups: "getUserGroups node editors_session = JArr (map JStr [''editors''])"
  by code_simp

text \<open>
  C4, as the code has it. For a user whose session holds a list of group names,
  \<^verbatim>\<open>_checkHasGroup\<close> calls back without an error and allows exactly when the requirement
  is falsy (\<^verbatim>\<open>false\<close>, absent, null, the empty string or zero), or the user's groups
  contain \<^verbatim>\<open>admin\<close>, or every required value is among the user's groups, where an array
  is the set of its elements and any other truthy requirement a set of one. In all other
  cases it denies.
\<close>

theorem checkHasGroup_decision:
  assumes "getUserGroups rt req = JArr (map JStr gs)"
  shows "u_checkHasGroup rt req r =
     Callback (JBool False)
       (JBool (\<not> truthy r \<or> ''admin'' \<in> set gs \<or> set (required_list r) \<subseteq> JStr ` set gs))"
  using assms by (rule checkHasGroup_strings)

theorem checkHasGroup_decision_witness:
  "getUserGroups node editors_session = JArr (map JStr [''editors''])
   \<and> u_checkHasGroup node editors_session (JStr ''editors'') = Callback (JBool False) (JBool True)
   \<and> u_checkHasGroup node editors_session (JArr [JStr ''editors'', JStr ''staff''])
       = Callback (JBool False) (JBool False)"
  using checkHasGroup_decision [OF editors_session_groups, of "JStr ''editors''"]
        checkHasGroup_decision [OF editors_session_groups, of "JArr [JStr ''editors'', JStr ''staff'']"]
        editors_session_groups
  by (simp add: required_list_def)

text \<open>
  C4 as stated fails for the empty string: it is a string, so the specification's
  wording reads it as the set holding the empty group name, which a user in \<^verbatim>\<open>users\<close>
  alone does not hold, and denies; the code takes it, like every falsy requirement, for no
  requirement and allows.
\<close>

theorem checkHasGroup_empty_string_counterexample:
  "u_checkHasGroup node users_session (JStr '''') = Callback (JBool False) (JBool True)
   \<and> getUserGroups node users_session = JArr (map JStr [''users''])
   \<and> \<not> spec_group_allows [''users''] (JStr '''')"
proof -
  have "u_checkHasGroup node users_session (JStr '''') = Callback (JBool False) (JBool True)"
    using checkHasGroup_strings [OF users_session_groups, of "JStr ''''"] by simp
  moreover have "\<not> spec_group_allows [''users''] (JStr '''')"
    by (simp add: spec_group_allows_def)
  ultimately show ?thesis using users_session_groups by simp
qed

subsection \<open>The session check\<close>

lemma after_session_authenticated:
  "setup_nw inst \<or> truthy (getUserName req) \<Longrightarrow> after_session inst req next_check = next_check"
  by (auto simp: after_session_def u_checkHasSession_def)

text \<open>
  C5. When the server is not in trusted (nw) mode and the session's username is empty or
  absent, each of \<^verbatim>\<open>checkAPIPrivilege\<close>, \<^verbatim>\<open>checkVFSPrivilege\<close> and
  \<^verbatim>\<open>checkPackagePrivilege\<close> calls back with the session error, whatever the tables, the
  resolver, the stored groups, the blacklist and the arguments are: none of the group,
  mount or package logic has a say. In trusted mode the session check always passes, and
  each operation is its privilege check.
\<close>

theorem no_session_fails_fast:
  "(\<not> setup_nw inst \<and> \<not> truthy (getUserName req) \<longrightarrow>
      checkAPIPrivilege rt inst req privilege
        = Callback (JStr ''You have no OS.js Session, please log in!'') JUndefined
    \<and> checkVFSPrivilege rt inst req method args
        = Callback (JStr ''You have no OS.js Session, please log in!'') JUndefined
    \<and> checkPackagePrivilege rt inst blk req packageName
        = Callback (JStr ''You have no OS.js Session, please log in!'') JUndefined)
   \<and> (setup_nw inst \<longrightarrow>
        u_checkHasSession inst req = Callback (JBool False) (JBool True)
      \<and> checkAPIPrivilege rt inst req privilege = u_checkHasAPIPrivilege rt inst req privilege
      \<and> checkVFSPrivilege rt inst req method args = u_checkHasVFSPrivilege rt inst req method args
      \<and> checkPackagePrivilege rt inst blk req packageName
          = u_checkHasPackagePrivilege rt inst blk req packageName)"
  by (simp add: checkAPIPrivilege_def checkVFSPrivilege_def checkPackagePrivilege_def
      after_session_def u_checkHasSession_def)

theorem no_session_fails_fast_witness:
  "\<not> setup_nw example_server \<and> \<not> truthy (getUserName fresh_session)
   \<and> checkAPIPrivilege node example_server fresh_session ''fs''
        = Callback (JStr ''You have no OS.js Session, please log in!'') JUndefined
   \<and> checkVFSPrivilege node example_server fresh_session ''read'' (JObj [(''path'', JStr ''nowhere'')])
        = Callback (JStr ''You have no OS.js Session, please log in!'') JUndefined
   \<and> checkPackagePrivilege node example_server getUserBlacklistedPackages fresh_session ''foo/bar''
        = Callback (JStr ''You have no OS.js Session, please log in!'') JUndefined
   \<and> setup_nw trusted_server
   \<and> u_checkHasSession trusted_server fresh_session = Callback (JBool False) (JBool True)"
  using no_session_fails_fast [of example_server fresh_session node "''fs''" "''read''"
          "JObj [(''path'', JStr ''nowhere'')]" getUserBlacklistedPackages "''foo/bar''"]
        no_session_fails_fast [of trusted_server fresh_session node "''fs''" "''read''"
          "JObj [(''path'', JStr ''nowhere'')]" getUserBlacklistedPackages "''foo/bar''"]
  by (simp add: example_server_def trusted_server_def getUserName_def fresh_session_def
      session_get_def)

subsection \<open>Package privilege\<close>

text \<open>A package whose metadata names no groups is allowed.\<close>

lemma package_without_groups_allowed:
  assumes "setup_nw inst \<or> truthy (getUserName req)"
    and "package_groups rt (metadata inst) packageName = Inr g" and "\<not> truthy g"
  shows "checkPackagePrivilege rt inst blk req packageName = Callback (JBool False) (JBool True)"
  using assms
  by (simp add: checkPackagePrivilege_def after_session_authenticated u_checkHasPackagePrivilege_def)

text \<open>
  What the code does once the group check has passed: \<^verbatim>\<open>_checkHasBlacklistedPackage\<close>
  answers \<^verbatim>\<open>true\<close> for a package on the blacklist, and \<^verbatim>\<open>_checkHasPackagePrivilege\<close>
  refuses on \<^verbatim>\<open>!res\<close>. So the package is let through exactly when it is on the
  blacklist.
\<close>

lemma package_privilege_follows_blacklist:
  assumes "setup_nw inst \<or> truthy (getUserName req)"
    and "package_groups rt (metadata inst) packageName = Inr g" and "truthy g"
    and "u_checkHasGroup rt req g = Callback (JBool False) (JBool True)"
    and "blk req = (JBool False, JArr (map JStr names))"
  shows "checkPackagePrivilege rt inst blk req packageName =
     (if packageName \<in> set names then Callback (JBool False) (JBool True)
      else Callback (JStr ''You are not allowed to load this Package'') JUndefined)"
  using assms
  by (auto simp: checkPackagePrivilege_def after_session_authenticated u_checkHasPackagePrivilege_def
      u_checkHasBlacklistedPackage_def js_or_def notallowed_def array_indexOf_neg list_ex_strings
      not_less [symmetric])

text \<open>
  C1 at the specification's own scenario. The package \<^verbatim>\<open>foo/bar\<close> asks for
  \<^verbatim>\<open>editors\<close>; alice is logged in, holds \<^verbatim>\<open>editors\<close>, and her blacklist is empty (the
  default handler's): \<^verbatim>\<open>checkPackagePrivilege\<close> refuses her with the package message.
  With \<^verbatim>\<open>foo/bar\<close> on her blacklist it lets her load the package.
\<close>

theorem package_privilege_at_scenario:
  "checkPackagePrivilege node example_server getUserBlacklistedPackages editors_session ''foo/bar''
     = Callback (JStr ''You are not allowed to load this Package'') JUndefined
   \<and> checkPackagePrivilege node example_server (blacklisting [''foo/bar'']) editors_session ''foo/bar''
     = Callback (JBool False) (JBool True)
   \<and> u_checkHasGroup node editors_session (JArr [JStr ''editors'']) = Callback (JBool False) (JBool True)"
  by code_simp

subsection \<open>API privilege\<close>

text \<open>
  What the code does for a method the table maps to a truthy requirement: it hands the
  method name, not the table's entry, to the group check. A user passes by holding
  \<^verbatim>\<open>admin\<close> or a group called like the method.
\<close>

lemma api_privilege_checks_method_name:
  assumes "setup_nw inst \<or> truthy (getUserName req)"
    and "get_prop rt (api_groups inst) privilege = Inr required" and "truthy required"
    and "truthy (api_groups inst)" and "privilege \<noteq> []"
    and "getUserGroups rt req = JArr (map JStr gs)"
  shows "checkAPIPrivilege rt inst req privilege =
     (if ''admin'' \<in> set gs \<or> privilege \<in> set gs then Callback (JBool False) (JBool True)
      else Callback (JStr ''You are not allowed to use this API function!'') (JBool False))"
  using assms
  by (auto simp: checkAPIPrivilege_def after_session_authenticated u_checkHasAPIPrivilege_def
      Let_def deny_with_def checkHasGroup_strings required_list_def)

lemma api_privilege_unmapped:
  assumes "setup_nw inst \<or> truthy (getUserName req)"
    and "get_prop rt (api_groups inst) privilege = Inr required" and "\<not> truthy required"
  shows "checkAPIPrivilege rt inst req privilege = Callback (JBool False) (JBool True)"
  using assms
  by (auto simp: checkAPIPrivilege_def after_session_authenticated u_checkHasAPIPrivilege_def Let_def)

text \<open>
  C2 at two inputs. The table asks for \<^verbatim>\<open>users\<close> on \<^verbatim>\<open>fs\<close>, and bob holds
  \<^verbatim>\<open>users\<close>, which satisfies that requirement: \<^verbatim>\<open>checkAPIPrivilege\<close> refuses him with
  the API message. The table asks for \<^verbatim>\<open>admin\<close> on the method called \<^verbatim>\<open>users\<close>, which
  bob, not an admin, does not satisfy: \<^verbatim>\<open>checkAPIPrivilege\<close> allows him.
\<close>

theorem api_privilege_at_scenario:
  "get_prop node (api_groups example_server) ''fs'' = Inr (JArr [JStr ''users''])
   \<and> u_checkHasGroup node users_session (JArr [JStr ''users'']) = Callback (JBool False) (JBool True)
   \<and> checkAPIPrivilege node example_server users_session ''fs''
       = Callback (JStr ''You are not allowed to use this API function!'') (JBool False)
   \<and> get_prop node (api_groups example_server) ''users'' = Inr (JArr [JStr ''admin''])
   \<and> u_checkHasGroup node users_session (JArr [JStr ''admin'']) = Callback (JBool False) (JBool False)
   \<and> checkAPIPrivilege node example_server users_session ''users''
       = Callback (JBool False) (JBool True)"
  by code_simp

subsection \<open>Reading the groups of the session\<close>

lemma getUserGroups_text:
  "session_get req ''groups'' = JStr text \<Longrightarrow>
     getUserGroups rt req = (case parse_text rt text of None \<Rightarrow> JArr [] | Some v \<Rightarrow> v)"
  by (simp add: getUserGroups_def JSON_parse_def split: option.split)

text \<open>An entry never set reads as undefined, which \<^verbatim>\<open>JSON.parse\<close> takes for the text
  \<^verbatim>\<open>undefined\<close>: not JSON, so the empty list is returned.\<close>

lemma getUserGroups_absent:
  "parse_text rt ''undefined'' = None \<Longrightarrow> session_get req ''groups'' = JUndefined
     \<Longrightarrow> getUserGroups rt req = JArr []"
  by (simp add: getUserGroups_def JSON_parse_def)

text \<open>Null is taken for the text \<^verbatim>\<open>null\<close>, which is JSON: nothing is thrown, and null
  is returned.\<close>

lemma getUserGroups_null:
  "parse_text rt ''null'' = Some JNull \<Longrightarrow> session_get req ''groups'' = JNull
     \<Longrightarrow> getUserGroups rt req = JNull"
  by (simp add: getUserGroups_def JSON_parse_def)

lemma node_parses_null: "parse_text node ''null'' = Some JNull"
  by code_simp

lemma node_rejects_undefined: "parse_text node ''undefined'' = None"
  by code_simp

lemma checkHasGroup_null_groups:
  "getUserGroups rt req = JNull \<Longrightarrow> u_checkHasGroup rt req r = Threw TypeError"
  by (cases r) (auto simp: u_checkHasGroup_def normalize_groupnames_eq Let_def)

text \<open>
  C10 at a session whose \<^verbatim>\<open>groups\<close> entry is null, as \<^verbatim>\<open>onLogout\<close> leaves it:
  \<^verbatim>\<open>getUserGroups\<close> returns null, not the empty list, and in trusted mode, where the
  session check passes without a username, the next privilege check of a mapped method
  throws a \<^verbatim>\<open>TypeError\<close> on \<^verbatim>\<open>groups.indexOf\<close>. For an absent entry the empty list is
  returned.
\<close>

theorem getUserGroups_after_logout:
  "session_get (snd (onLogout node admin_session)) ''groups'' = JNull
   \<and> getUserGroups node (snd (onLogout node admin_session)) = JNull
   \<and> checkAPIPrivilege node trusted_server (snd (onLogout node admin_session)) ''fs'' = Threw TypeError
   \<and> getUserGroups node fresh_session = JArr []"
  by code_simp

subsection \<open>Registration\<close>

lemma registerAPIMethod_keeps: "t k \<noteq> None \<Longrightarrow> registerAPIMethod t fn f k \<noteq> None"
  by (simp add: registerAPIMethod_def)

lemma registerAPIMethod_adds: "registerAPIMethod t fn f fn \<noteq> None"
  by (simp add: registerAPIMethod_def)

lemma fold_registerAPI_present:
  "k \<in> fst ` set ms \<or> t k \<noteq> None
     \<Longrightarrow> fold (\<lambda>(fn, fref) t. registerAPIMethod t fn fref) ms t k \<noteq> None"
proof (induction ms arbitrary: t)
  case Nil
  then show ?case by simp
next
  case (Cons m ms)
  obtain fn fref where m: "m = (fn, fref)" by (cases m)
  have "k \<in> fst ` set ms \<or> registerAPIMethod t fn fref k \<noteq> None"
    using Cons.prems m registerAPIMethod_keeps [of t k fn fref] registerAPIMethod_adds [of t fn fref]
    by auto
  then have "fold (\<lambda>(fn, fref) t. registerAPIMethod t fn fref) ms (registerAPIMethod t fn fref) k \<noteq> None"
    by (rule Cons.IH)
  then show ?case by (simp add: m)
qed

lemma fold_registerAPI_noop:
  "\<forall>k \<in> fst ` set ms. t k \<noteq> None
     \<Longrightarrow> fold (\<lambda>(fn, fref) t. registerAPIMethod t fn fref) ms t = t"
  by (induction ms arbitrary: t) (auto simp: registerAPIMethod_def)

lemma registerVFSMethod_keeps: "t k \<noteq> None \<Longrightarrow> registerVFSMethod t fn f k \<noteq> None"
  by (simp add: registerVFSMethod_def)

lemma registerVFSMethod_adds: "registerVFSMethod t fn f fn \<noteq> None"
  by (simp add: registerVFSMethod_def)

lemma fold_registerVFS_present:
  "k \<in> fst ` set ms \<or> t k \<noteq> None
     \<Longrightarrow> fold (\<lambda>(fn, fref) t. registerVFSMethod t fn fref) ms t k \<noteq> None"
proof (induction ms arbitrary: t)
  case Nil
  then show ?case by simp
next
  case (Cons m ms)
  obtain fn fref where m: "m = (fn, fref)" by (cases m)
  have "k \<in> fst ` set ms \<or> registerVFSMethod t fn fref k \<noteq> None"
    using Cons.prems m registerVFSMethod_keeps [of t k fn fref] registerVFSMethod_adds [of t fn fref]
    by auto
  then have "fold (\<lambda>(fn, fref) t. registerVFSMethod t fn fref) ms (registerVFSMethod t fn fref) k \<noteq> None"
    by (rule Cons.IH)
  then show ?case by (simp add: m)
qed

lemma fold_registerVFS_noop:
  "\<forall>k \<in> fst ` set ms. t k \<noteq> None
     \<Longrightarrow> fold (\<lambda>(fn, fref) t. registerVFSMethod t fn fref) ms t = t"
  by (induction ms arbitrary: t) (auto simp: registerVFSMethod_def)

text \<open>\<^verbatim>\<open>registerMethods\<close> runs in the handler's constructor and again in \<^verbatim>\<open>init\<close>;
  the second run over the same methods changes nothing.\<close>

lemma registerMethods_twice:
  "registerMethods (registerMethods tables api vfs) api vfs = registerMethods tables api vfs"
  by (simp add: registerMethods_def Let_def fold_registerAPI_noop fold_registerVFS_noop
      fold_registerAPI_present fold_registerVFS_present)

text \<open>
  C6. Registering under a name that is already present leaves the API table, and the
  VFS table, as it was; registering twice is registering once, and the first function
  wins. A method that needs wrapping and is registered twice is held as one closure around
  the first function, and a call of it calls \<^verbatim>\<open>checkAPIPrivilege\<close> exactly once; a
  wrapped VFS method calls \<^verbatim>\<open>checkAPIPrivilege\<close> once, for \<^verbatim>\<open>fs\<close>, and then
  \<^verbatim>\<open>checkVFSPrivilege\<close> once if that check let the call through. The checks counted
  are those the registered closure makes before it applies the function it wraps.
\<close>

theorem registration_idempotent:
  "(api fn \<noteq> None \<longrightarrow> registerAPIMethod api fn fref = api)
   \<and> (vfs fn \<noteq> None \<longrightarrow> registerVFSMethod vfs fn fref = vfs)
   \<and> registerAPIMethod (registerAPIMethod api fn fref) fn fref' = registerAPIMethod api fn fref
   \<and> registerVFSMethod (registerVFSMethod vfs fn fref) fn fref' = registerVFSMethod vfs fn fref
   \<and> (api fn = None \<and> fn \<notin> set ignorePrivilegesAPI \<longrightarrow>
        registerAPIMethod (registerAPIMethod api fn fref) fn fref' fn = Some (WrappedAPI fn fref)
        \<and> length (filter is_check (invoke rt inst req args (WrappedAPI fn fref))) = 1)
   \<and> (vfs fn = None \<and> fn \<notin> set ignorePrivilegesVFS \<longrightarrow>
        registerVFSMethod (registerVFSMethod vfs fn fref) fn fref' fn = Some (WrappedVFS fn fref)
        \<and> length (filter is_api_check (invoke rt inst req args (WrappedVFS fn fref))) = 1
        \<and> length (filter is_vfs_check (invoke rt inst req args (WrappedVFS fn fref)))
            = (if passed (checkAPIPrivilege rt inst req ''fs'') then 1 else 0))"
proof -
  have a: "api fn \<noteq> None \<longrightarrow> registerAPIMethod api fn fref = api"
    by (simp add: registerAPIMethod_def)
  have b: "vfs fn \<noteq> None \<longrightarrow> registerVFSMethod vfs fn fref = vfs"
    by (simp add: registerVFSMethod_def)
  have c: "registerAPIMethod (registerAPIMethod api fn fref) fn fref' = registerAPIMethod api fn fref"
    by (simp add: registerAPIMethod_def)
  have d: "registerVFSMethod (registerVFSMethod vfs fn fref) fn fref' = registerVFSMethod vfs fn fref"
    by (simp add: registerVFSMethod_def)
  have e: "api fn = None \<and> fn \<notin> set ignorePrivilegesAPI \<longrightarrow>
        registerAPIMethod (registerAPIMethod api fn fref) fn fref' fn = Some (WrappedAPI fn fref)"
    by (simp add: registerAPIMethod_def)
  have f: "length (filter is_check (invoke rt inst req args (WrappedAPI fn fref))) = 1"
    by (simp split: outcome.split)
  have g: "vfs fn = None \<and> fn \<notin> set ignorePrivilegesVFS \<longrightarrow>
        registerVFSMethod (registerVFSMethod vfs fn fref) fn fref' fn = Some (WrappedVFS fn fref)"
    by (simp add: registerVFSMethod_def)
  have h: "length (filter is_api_check (invoke rt inst req args (WrappedVFS fn fref))) = 1"
    by (simp split: outcome.split)
  have i: "length (filter is_vfs_check (invoke rt inst req args (WrappedVFS fn fref)))
            = (if passed (checkAPIPrivilege rt inst req ''fs'') then 1 else 0)"
    by (simp split: outcome.split)
  from a b c d e f g h i show ?thesis by blast
qed

theorem registration_idempotent_witness:
  "example_api ''curl'' \<noteq> None
   \<and> registerAPIMethod example_api ''curl'' ''another handler'' = example_api
   \<and> example_vfs ''read'' \<noteq> None
   \<and> registerVFSMethod example_vfs ''read'' ''another handler'' = example_vfs
   \<and> registerAPIMethod example_api ''curl'' ''another handler'' ''curl''
       = Some (WrappedAPI ''curl'' ''curl handler'')
   \<and> length (filter is_check
        (invoke node example_server users_session (JObj []) (WrappedAPI ''curl'' ''curl handler''))) = 1
   \<and> registerVFSMethod example_vfs ''read'' ''another handler'' ''read''
       = Some (WrappedVFS ''read'' ''read handler'')
   \<and> length (filter is_api_check
        (invoke node example_server users_session (JObj []) (WrappedVFS ''read'' ''read handler''))) = 1"
  using registration_idempotent [where api = example_api and vfs = example_vfs and fn = "''curl''"
          and fref = "''another handler''" and fref' = "''another handler''" and rt = node
          and inst = example_server and req = users_session and args = "JObj []"]
        registration_idempotent [where api = example_api and vfs = example_vfs and fn = "''read''"
          and fref = "''another handler''" and fref' = "''another handler''" and rt = node
          and inst = example_server and req = users_session and args = "JObj []"]
        registration_idempotent [where api = Map.empty and vfs = Map.empty and fn = "''curl''"
          and fref = "''curl handler''" and fref' = "''another handler''" and rt = node
          and inst = example_server and req = users_session and args = "JObj []"]
        registration_idempotent [where api = Map.empty and vfs = Map.empty and fn = "''read''"
          and fref = "''read handler''" and fref' = "''another handler''" and rt = node
          and inst = example_server and req = users_session and args = "JObj []"]
  by (simp add: example_api_def example_vfs_def registerAPIMethod_def registerVFSMethod_def
      ignorePrivilegesAPI_def ignorePrivilegesVFS_def)

subsection \<open>Login and logout\<close>

lemma obj_get_set_prop: "obj_get (set_prop kvs k v) k' = (if k' = k then v else obj_get kvs k')"
  by (induction kvs) (auto simp: obj_get_def)

lemma setUserData_other_keys:
  "k \<noteq> ''username'' \<Longrightarrow> k \<noteq> ''groups''
     \<Longrightarrow> session_get (snd (setUserData rt req data)) k = session_get req k"
  by (auto simp: setUserData_def session_get_def session_set_def Let_def split: sum.splits)

lemma onLogin_session:
  "snd (onLogin rt blk req data) = snd (setUserData rt req (obj_get data ''userData''))"
  by (auto simp: onLogin_def Let_def obj_get_set_prop split: prod.splits outcome.splits)

lemma onLogout_eq:
  "onLogout rt req = (Callback (JBool False) (JBool True),
      session_set (session_set req ''username'' JNull) ''groups'' JNull)"
  by (simp add: onLogout_def setUserData_def)

text \<open>
  C7. For a session that starts anonymous (its \<^verbatim>\<open>username\<close> and \<^verbatim>\<open>groups\<close> absent or
  null), a login followed by a logout leaves \<^verbatim>\<open>username\<close> and \<^verbatim>\<open>groups\<close> null and every
  other entry as it was, so the session is as before the login up to absent and null; the
  logout reports success. The login in between stores the username of the user data and
  the serialized groups.
\<close>

theorem login_then_logout:
  assumes "nullish (session_get req ''username'')" and "nullish (session_get req ''groups'')"
  shows "fst (onLogout rt (snd (onLogin rt blk req data))) = Callback (JBool False) (JBool True)
     \<and> session_get (snd (onLogout rt (snd (onLogin rt blk req data)))) ''username'' = JNull
     \<and> session_get (snd (onLogout rt (snd (onLogin rt blk req data)))) ''groups'' = JNull
     \<and> (\<forall>k. nullish (session_get (snd (onLogout rt (snd (onLogin rt blk req data)))) k)
              = nullish (session_get req k))
     \<and> (\<forall>k. k \<noteq> ''username'' \<longrightarrow> k \<noteq> ''groups'' \<longrightarrow>
              session_get (snd (onLogout rt (snd (onLogin rt blk req data)))) k = session_get req k)
     \<and> (\<forall>ud. obj_get data ''userData'' = JObj ud \<longrightarrow>
              session_get (snd (onLogin rt blk req data)) ''username'' = obj_get ud ''username''
            \<and> session_get (snd (onLogin rt blk req data)) ''groups''
                = JSON_stringify rt (obj_get ud ''groups''))"
proof -
  let ?s1 = "snd (onLogin rt blk req data)"
  let ?s2 = "snd (onLogout rt ?s1)"
  have other: "session_get ?s2 k = session_get req k" if "k \<noteq> ''username''" "k \<noteq> ''groups''" for k
    using that setUserData_other_keys [of k rt req "obj_get data ''userData''"]
    by (simp add: onLogout_eq onLogin_session session_get_def session_set_def)
  have u: "session_get ?s2 ''username'' = JNull" and g: "session_get ?s2 ''groups'' = JNull"
    by (simp_all add: onLogout_eq session_get_def session_set_def)
  have n: "nullish (session_get ?s2 k) = nullish (session_get req k)" for k
  proof (cases "k = ''username'' \<or> k = ''groups''")
    case True
    then show ?thesis using u g assms by auto
  next
    case False
    then show ?thesis using other by simp
  qed
  have st: "session_get ?s1 ''username'' = obj_get ud ''username''
            \<and> session_get ?s1 ''groups'' = JSON_stringify rt (obj_get ud ''groups'')"
    if "obj_get data ''userData'' = JObj ud" for ud
    using that by (simp add: onLogin_session setUserData_def session_get_def session_set_def
        obj_get_def Let_def)
  show ?thesis using u g n other st by (simp add: onLogout_eq)
qed

lemma nw_login_session:
  \<open>session_get (snd (onLogin node getUserBlacklistedPackages fresh_session nw_login_data)) ''username''
     = JStr ''nw''
   \<and> session_get (snd (onLogin node getUserBlacklistedPackages fresh_session nw_login_data)) ''groups''
     = JStr ''["admin"]''\<close>
  by code_simp

theorem login_then_logout_witness:
  \<open>nullish (session_get fresh_session ''username'') \<and> nullish (session_get fresh_session ''groups'')
   \<and> session_get (snd (onLogin node getUserBlacklistedPackages fresh_session nw_login_data)) ''username''
       = JStr ''nw''
   \<and> session_get (snd (onLogin node getUserBlacklistedPackages fresh_session nw_login_data)) ''groups''
       = JStr ''["admin"]''
   \<and> fst (onLogout node (snd (onLogin node getUserBlacklistedPackages fresh_session nw_login_data)))
       = Callback (JBool False) (JBool True)
   \<and> session_get (snd (onLogout node
         (snd (onLogin node getUserBlacklistedPackages fresh_session nw_login_data)))) ''username'' = JNull
   \<and> session_get (snd (onLogout node
         (snd (onLogin node getUserBlacklistedPackages fresh_session nw_login_data)))) ''groups'' = JNull\<close>
proof -
  have a: "nullish (session_get fresh_session ''username'')"
    and b: "nullish (session_get fresh_session ''groups'')"
    by (simp_all add: fresh_session_def session_get_def)
  from login_then_logout [OF a b, of node getUserBlacklistedPackages nw_login_data]
    a b nw_login_session
  show ?thesis by simp
qed

subsection \<open>VFS privilege\<close>

lemma strip_protocol_suffix: "strip_protocol (p @ ''://'') = p"
  by (simp add: strip_protocol_def suffix_def)





text \<open>
  A protocol that names an inherited member. The table of the example has no entry
  \<^verbatim>\<open>constructor\<close>, yet reading it under that name finds the constructor every object
  inherits, which is truthy: the group check runs against it and refuses bob, who would
  pass an absent entry.
\<close>

lemma vfs_privilege_inherited_member:
  "resolve_mount example_server users_session (JObj [(''path'', JStr ''constructor:///x'')])
     = Inr (JObj [(''protocol'', JStr ''constructor://''), (''path'', JStr ''/x'')])
   \<and> own_prop (vfs_groups example_server) ''constructor'' = None
   \<and> lookup_against node example_server
         (JObj [(''protocol'', JStr ''constructor://''), (''path'', JStr ''/x'')])
       = JFun ''Object''
   \<and> checkVFSPrivilege node example_server users_session ''read''
         (JObj [(''path'', JStr ''constructor:///x'')])
       = Callback (JStr ''You are not allowed to use this VFS function!'') (JBool False)"
  by code_simp


text \<open>The scenarios of the specification: an admin passes a mount that asks for
  \<^verbatim>\<open>trusted\<close>, and a mount the table does not name is open to everyone logged in.\<close>

lemma vfs_privilege_scenarios:
  "checkVFSPrivilege node example_server admin_session ''read'' (JObj [(''src'', JStr ''home:///docs'')])
     = Callback (JBool False) (JBool True)
   \<and> checkVFSPrivilege node example_server users_session ''read'' (JObj [(''path'', JStr ''tmp:///x'')])
     = Callback (JBool False) (JBool True)"
  by code_simp

subsection \<open>System login\<close>

lemma JSON_parse_of_text:
  "JSON_parse rt (JStr s) = (case parse_text rt s of None \<Rightarrow> Inl SyntaxError | Some v \<Rightarrow> Inr v)"
  by (simp add: JSON_parse_def)

lemma truthy_js_or_array: "truthy (js_or v (JArr xs))"
  by (simp add: js_or_def)

lemma login_getUserBlacklist_truthy: "truthy (login_getUserBlacklist rt fs cfg username)"
  by (auto simp: login_getUserBlacklist_def truthy_js_or_array split: read_result.split sum.split)

lemma onLogin_system_data:
  assumes "truthy blacklist"
  shows "onLogin rt blk req
           [(''userData'', JObj ud), (''userSettings'', settings), (''blacklistedPackages'', blacklist)]
         = ([Callback (JBool False)
               (JObj [(''userData'', JObj ud), (''userSettings'', js_or settings (JObj [])),
                      (''blacklistedPackages'', blacklist)])],
            session_set (session_set req ''username'' (obj_get ud ''username''))
              ''groups'' (JSON_stringify rt (obj_get ud ''groups'')))"
  using assms
  by (simp add: onLogin_def obj_get_def setUserData_def Let_def)

text \<open>
  What \<^verbatim>\<open>onSystemLogin\<close> does with its three files. A settings file or a blacklist file
  that cannot be read or is not JSON yields the empty settings object and the empty
  blacklist. An unusable groups file is replaced by the empty object, which is then read
  under the username: a username that is not the name of an inherited member yields the
  empty group list, any other one the inherited member. Whenever the groups are
  obtained, which includes every case of an unusable groups file, the login goes
  through: the callback receives no error and the record with the user data
  \<^verbatim>\<open>{id, username, name = username, groups}\<close>, the settings and the blacklist, and the
  session holds the username and the serialized groups. The failing case needs a groups
  file that was read and parsed (to null).
\<close>

lemma system_login_file_errors:
  "(file_unusable rt fs (getSettingsPath cfg (JStr username)) \<longrightarrow>
       login_getUserSettings rt fs cfg username = JObj [])
   \<and> (file_unusable rt fs (cfg_groups cfg) \<and> inherited_member rt (JObj []) username = None \<longrightarrow>
       login_getUserGroups rt fs cfg username = Inr (JArr []))
   \<and> (\<forall>m. file_unusable rt fs (cfg_groups cfg) \<and> inherited_member rt (JObj []) username = Some m \<longrightarrow>
       login_getUserGroups rt fs cfg username = Inr (js_or m (JArr [])))
   \<and> (file_unusable rt fs (cfg_blacklist cfg) \<longrightarrow>
       login_getUserBlacklist rt fs cfg username = JArr [])
   \<and> (\<forall>groups. login_getUserGroups rt fs cfg username = Inr groups \<longrightarrow>
         onSystemLogin rt blk fs req cfg username uid =
           ([Callback (JBool False)
               (JObj [(''userData'',
                         JObj [(''id'', uid), (''username'', JStr username),
                               (''name'', JStr username), (''groups'', groups)]),
                      (''userSettings'', js_or (login_getUserSettings rt fs cfg username) (JObj [])),
                      (''blacklistedPackages'', login_getUserBlacklist rt fs cfg username)])],
            session_set (session_set req ''username'' (JStr username))
              ''groups'' (JSON_stringify rt groups)))
   \<and> (\<forall>e. login_getUserGroups rt fs cfg username = Inl e \<longrightarrow>
         (\<exists>content v. fs_readFile fs (cfg_groups cfg) = ReadOk content
                      \<and> parse_text rt content = Some v \<and> nullish v))"
proof -
  have s: "file_unusable rt fs (getSettingsPath cfg (JStr username)) \<longrightarrow>
       login_getUserSettings rt fs cfg username = JObj []"
    by (auto simp: file_unusable_def login_getUserSettings_def JSON_parse_of_text
        split: read_result.splits)
  have list: "login_getUserGroups rt fs cfg username =
        (case get_prop rt (JObj []) username of
           Inl e \<Rightarrow> Inl e | Inr groups \<Rightarrow> Inr (js_or groups (JArr [])))"
    if "file_unusable rt fs (cfg_groups cfg)"
    using that
    by (auto simp: file_unusable_def login_getUserGroups_def JSON_parse_of_text
        split: read_result.splits)
  have g: "file_unusable rt fs (cfg_groups cfg) \<and> inherited_member rt (JObj []) username = None \<longrightarrow>
       login_getUserGroups rt fs cfg username = Inr (JArr [])"
    by (simp add: list get_prop_def js_or_def)
  have g': "\<forall>m. file_unusable rt fs (cfg_groups cfg) \<and> inherited_member rt (JObj []) username = Some m \<longrightarrow>
       login_getUserGroups rt fs cfg username = Inr (js_or m (JArr []))"
    by (simp add: list get_prop_def)
  have b: "file_unusable rt fs (cfg_blacklist cfg) \<longrightarrow>
       login_getUserBlacklist rt fs cfg username = JArr []"
    by (auto simp: file_unusable_def login_getUserBlacklist_def JSON_parse_of_text
        split: read_result.splits)
  have l: "onSystemLogin rt blk fs req cfg username uid =
           ([Callback (JBool False)
               (JObj [(''userData'',
                         JObj [(''id'', uid), (''username'', JStr username),
                               (''name'', JStr username), (''groups'', groups)]),
                      (''userSettings'', js_or (login_getUserSettings rt fs cfg username) (JObj [])),
                      (''blacklistedPackages'', login_getUserBlacklist rt fs cfg username)])],
            session_set (session_set req ''username'' (JStr username))
              ''groups'' (JSON_stringify rt groups))"
    if "login_getUserGroups rt fs cfg username = Inr groups" for groups
    using that
    by (simp add: onSystemLogin_def Let_def onLogin_system_data login_getUserBlacklist_truthy obj_get_def)
  have e: "\<exists>content v. fs_readFile fs (cfg_groups cfg) = ReadOk content
                      \<and> parse_text rt content = Some v \<and> nullish v"
    if "login_getUserGroups rt fs cfg username = Inl e" for e
  proof (cases "fs_readFile fs (cfg_groups cfg)")
    case (ReadFailed err)
    with that show ?thesis by (simp add: login_getUserGroups_def get_prop_def)
  next
    case (ReadOk content)
    show ?thesis
    proof (cases "parse_text rt content")
      case None
      with that ReadOk show ?thesis
        by (simp add: login_getUserGroups_def JSON_parse_of_text get_prop_def)
    next
      case (Some v)
      with that ReadOk have "nullish v"
        by (cases "nullish v") (simp_all add: login_getUserGroups_def JSON_parse_of_text get_prop_def)
      with ReadOk Some show ?thesis by simp
    qed
  qed
  from s g g' b l e show ?thesis by blast
qed

lemma broken_settings_unusable:
  "file_unusable node broken_files (getSettingsPath example_login_config (JStr ''alice''))"
  by code_simp

lemma broken_groups_unusable: "file_unusable node broken_files (cfg_groups example_login_config)"
  by code_simp

lemma broken_blacklist_unusable: "file_unusable node broken_files (cfg_blacklist example_login_config)"
  by code_simp

text \<open>For alice, whose name no object inherits, a login on the file system on which
  nothing works goes through with empty settings, groups and blacklist.\<close>

lemma system_login_without_files:
  "file_unusable node broken_files (getSettingsPath example_login_config (JStr ''alice''))
   \<and> file_unusable node broken_files (cfg_groups example_login_config)
   \<and> file_unusable node broken_files (cfg_blacklist example_login_config)
   \<and> inherited_member node (JObj []) ''alice'' = None
   \<and> fst (onSystemLogin node getUserBlacklistedPackages broken_files fresh_session
             example_login_config ''alice'' (JNum 1000))
       = [Callback (JBool False)
            (JObj [(''userData'',
                      JObj [(''id'', JNum 1000), (''username'', JStr ''alice''),
                            (''name'', JStr ''alice''), (''groups'', JArr [])]),
                   (''userSettings'', JObj []),
                   (''blacklistedPackages'', JArr [])])]"
  by code_simp

text \<open>
  C8 at a failing input. The groups file is missing, and the user logging in is called
  \<^verbatim>\<open>constructor\<close>. The read error is swallowed and the empty object stands in for the
  list; \<^verbatim>\<open>list[login.username]\<close> then finds the constructor that every object inherits,
  which is truthy, so \<^verbatim>\<open>|| []\<close> does not apply: the groups of the record are that
  function and not the empty list, and the session stores no groups text at all.
\<close>

theorem system_login_inherited_member:
  "file_unusable node broken_files (cfg_groups example_login_config)
   \<and> login_getUserGroups node broken_files example_login_config ''constructor''
       = Inr (JFun ''Object'')
   \<and> fst (onSystemLogin node getUserBlacklistedPackages broken_files fresh_session
             example_login_config ''constructor'' (JNum 1000))
       = [Callback (JBool False)
            (JObj [(''userData'',
                      JObj [(''id'', JNum 1000), (''username'', JStr ''constructor''),
                            (''name'', JStr ''constructor''), (''groups'', JFun ''Object'')]),
                   (''userSettings'', JObj []),
                   (''blacklistedPackages'', JArr [])])]
   \<and> session_get (snd (onSystemLogin node getUserBlacklistedPackages broken_files fresh_session
             example_login_config ''constructor'' (JNum 1000))) ''groups''
       = JUndefined"
  by code_simp

text \<open>With the files in place the same login reads alice's groups, settings and
  blacklist.\<close>

lemma system_login_with_files:
  "fst (onSystemLogin node getUserBlacklistedPackages working_files fresh_session
          example_login_config ''alice'' (JNum 1000))
     = [Callback (JBool False)
          (JObj [(''userData'',
                    JObj [(''id'', JNum 1000), (''username'', JStr ''alice''),
                          (''name'', JStr ''alice''), (''groups'', JArr [JStr ''editors''])]),
                 (''userSettings'', JObj [(''theme'', JStr ''dark'')]),
                 (''blacklistedPackages'', JArr [JStr ''foo/bar''])])]"
  by code_simp

subsection \<open>Storing the settings\<close>

lemma split_first_Some:
  "split_first pat s = Some (pre, post) \<Longrightarrow> s = pre @ pat @ post"
proof (induction s arbitrary: pre)
  case Nil
  then show ?case by (simp split: if_splits)
next
  case (Cons c cs)
  show ?case
  proof (cases "prefix pat (c # cs)")
    case True
    then obtain r where r: "c # cs = pat @ r" by (auto simp: prefix_def)
    from True Cons.prems have "pre = []" and "post = drop (length pat) (c # cs)" by simp_all
    with r show ?thesis by simp
  next
    case False
    with Cons.prems obtain pre' where "split_first pat cs = Some (pre', post)" and "pre = c # pre'"
      by auto
    with Cons.IH [of pre'] show ?thesis by simp
  qed
qed

lemma get_substitution_plain:
  "CHR ''$'' \<notin> set r \<Longrightarrow> get_substitution matched pre post r = r"
  by (induction matched pre post r rule: get_substitution.induct) auto

text \<open>
  What \<^verbatim>\<open>onSystemSettings\<close> does. It asks for the directory of the settings path, then
  writes the serialized settings to the settings path, whatever the directory creation
  reports. A failed write gives the callback the error and \<^verbatim>\<open>true\<close>, a successful one
  \<^verbatim>\<open>false\<close> and \<^verbatim>\<open>false\<close>. The path is \<^verbatim>\<open>/root\<close> for root; for any other username
  free of the dollar sign it is the template with its first \<^verbatim>\<open>%USERNAME%\<close> replaced by
  the username.
\<close>

lemma system_settings_requests:
  "fst (onSystemSettings rt fs req cfg settings)
     = [Mkdir (path_dirname rt (getSettingsPath cfg (getUserName req))),
        WriteFile (getSettingsPath cfg (getUserName req)) (JSON_stringify rt settings)]
   \<and> (truthy (fs_writeFile fs (getSettingsPath cfg (getUserName req)) (JSON_stringify rt settings)) \<longrightarrow>
        snd (onSystemSettings rt fs req cfg settings)
          = Callback (fs_writeFile fs (getSettingsPath cfg (getUserName req)) (JSON_stringify rt settings))
              (JBool True))
   \<and> (\<not> truthy (fs_writeFile fs (getSettingsPath cfg (getUserName req)) (JSON_stringify rt settings)) \<longrightarrow>
        snd (onSystemSettings rt fs req cfg settings) = Callback (JBool False) (JBool False))
   \<and> onSystemSettings rt (fs \<lparr> fs_mkdir := mkdir' \<rparr>) req cfg settings
        = onSystemSettings rt fs req cfg settings
   \<and> getSettingsPath cfg (JStr ''root'') = ''/root''
   \<and> (\<forall>u pre post. u \<noteq> ''root'' \<and> CHR ''$'' \<notin> set u
          \<and> split_first ''%USERNAME%'' (cfg_settings cfg) = Some (pre, post) \<longrightarrow>
        cfg_settings cfg = pre @ ''%USERNAME%'' @ post
        \<and> getSettingsPath cfg (JStr u) = pre @ u @ post)"
proof -
  have p: "\<forall>u pre post. u \<noteq> ''root'' \<and> CHR ''$'' \<notin> set u
          \<and> split_first ''%USERNAME%'' (cfg_settings cfg) = Some (pre, post) \<longrightarrow>
        cfg_settings cfg = pre @ ''%USERNAME%'' @ post
        \<and> getSettingsPath cfg (JStr u) = pre @ u @ post"
  proof (intro allI impI, elim conjE)
    fix u pre post
    assume "u \<noteq> ''root''" and "CHR ''$'' \<notin> set u"
      and "split_first ''%USERNAME%'' (cfg_settings cfg) = Some (pre, post)"
    then show "cfg_settings cfg = pre @ ''%USERNAME%'' @ post
        \<and> getSettingsPath cfg (JStr u) = pre @ u @ post"
      using split_first_Some [of "''%USERNAME%''" "cfg_settings cfg" pre post]
      by (simp add: getSettingsPath_def js_replace_def get_substitution_plain)
  qed
  have r: "getSettingsPath cfg (JStr ''root'') = ''/root''"
    by (simp add: getSettingsPath_def)
  have a: "fst (onSystemSettings rt fs req cfg settings)
     = [Mkdir (path_dirname rt (getSettingsPath cfg (getUserName req))),
        WriteFile (getSettingsPath cfg (getUserName req)) (JSON_stringify rt settings)]"
    by (simp add: onSystemSettings_def Let_def)
  have b: "truthy (fs_writeFile fs (getSettingsPath cfg (getUserName req)) (JSON_stringify rt settings)) \<longrightarrow>
        snd (onSystemSettings rt fs req cfg settings)
          = Callback (fs_writeFile fs (getSettingsPath cfg (getUserName req)) (JSON_stringify rt settings))
              (JBool True)"
    by (simp add: onSystemSettings_def Let_def js_or_def)
  have c: "\<not> truthy (fs_writeFile fs (getSettingsPath cfg (getUserName req)) (JSON_stringify rt settings)) \<longrightarrow>
        snd (onSystemSettings rt fs req cfg settings) = Callback (JBool False) (JBool False)"
    by (simp add: onSystemSettings_def Let_def js_or_def)
  have d: "onSystemSettings rt (fs \<lparr> fs_mkdir := mkdir' \<rparr>) req cfg settings
        = onSystemSettings rt fs req cfg settings"
    by (simp add: onSystemSettings_def Let_def)
  from a b c d r p show ?thesis by blast
qed

text \<open>For a username without a dollar sign the path is the one the specification
  describes.\<close>

lemma settings_path_without_dollar:
  "CHR ''$'' \<notin> set u \<Longrightarrow> getSettingsPath cfg (JStr u) = spec_settings_path (cfg_settings cfg) u"
  by (simp add: getSettingsPath_def spec_settings_path_def js_replace_def get_substitution_plain
      split: option.split)

text \<open>For alice the settings go to her directory, on a file system that refuses the
  write and on one that takes it.\<close>

lemma system_settings_for_alice:
  \<open>fst (onSystemSettings node broken_files editors_session example_login_config
          (JObj [(''theme'', JStr ''dark'')]))
     = [Mkdir ''/home/alice/.osjs'',
        WriteFile ''/home/alice/.osjs/settings.json'' (JStr ''{"theme":"dark"}'')]
   \<and> snd (onSystemSettings node broken_files editors_session example_login_config
          (JObj [(''theme'', JStr ''dark'')]))
     = Callback (JStr ''EACCES'') (JBool True)
   \<and> snd (onSystemSettings node working_files editors_session example_login_config
          (JObj [(''theme'', JStr ''dark'')]))
     = Callback (JBool False) (JBool False)\<close>
  by code_simp

text \<open>
  C9 at a failing input. The session's username is \<^verbatim>\<open>a$&b\<close> and the template is
  \<^verbatim>\<open>/home/%USERNAME%/.osjs/settings.json\<close>, so that the path the specification
  describes is \<^verbatim>\<open>/home/a$&b/.osjs/settings.json\<close>. The username is handed to
  \<^verbatim>\<open>replace\<close> as the replacement, where \<^verbatim>\<open>$&\<close> stands for the matched text: the
  placeholder comes back in the middle of the name, and the directory asked for and the
  file written are those of \<^verbatim>\<open>a%USERNAME%b\<close>.
\<close>

theorem system_settings_dollar_username:
  \<open>getUserName dollar_session = JStr ''a$&b''
   \<and> cfg_settings example_login_config = ''/home/%USERNAME%/.osjs/settings.json''
   \<and> spec_settings_path (cfg_settings example_login_config) ''a$&b''
       = ''/home/a$&b/.osjs/settings.json''
   \<and> getSettingsPath example_login_config (getUserName dollar_session)
       = ''/home/a%USERNAME%b/.osjs/settings.json''
   \<and> onSystemSettings node working_files dollar_session example_login_config
         (JObj [(''theme'', JStr ''dark'')])
       = ([Mkdir ''/home/a%USERNAME%b/.osjs'',
           WriteFile ''/home/a%USERNAME%b/.osjs/settings.json'' (JStr ''{"theme":"dark"}'')],
          Callback (JBool False) (JBool False))\<close>
  by code_simp

subsection \<open>Groups stored by a login are the groups read by the checks\<close>

text \<open>
  With the concrete runtime, a list of plain group names survives \<^verbatim>\<open>JSON.stringify\<close> in
  \<^verbatim>\<open>setUserData\<close> and \<^verbatim>\<open>JSON.parse\<close> in \<^verbatim>\<open>getUserGroups\<close>: the sessions the group
  decision speaks about are the ones a login leaves behind.
\<close>

lemma escape_plain: "plain s \<Longrightarrow> concat (map escape_char s) = s"
  by (induction s) (auto simp: plain_def plain_char_def escape_char_def)

lemma json_quote_plain: "plain s \<Longrightarrow> json_quote s = CHR 0x22 # s @ [CHR 0x22]"
  by (simp add: json_quote_def escape_plain)

lemma parse_string_chars_plain:
  "plain g \<Longrightarrow> parse_string_chars (g @ CHR 0x22 # rest) acc = Some (rev acc @ g, rest)"
  by (induction g arbitrary: acc) (auto simp: plain_def plain_char_def)

lemma skip_ws_no_ws: "\<not> is_ws c \<Longrightarrow> skip_ws (c # s) = c # s"
  by (simp add: skip_ws_def)

lemma parse_scalar_quoted:
  "plain g \<Longrightarrow> parse_scalar (json_quote g @ rest) = Some (JStr g, rest)"
  by (simp add: json_quote_plain parse_scalar_def parse_string_chars_plain)

lemma parse_value_quoted:
  "plain g \<Longrightarrow> parse_value (Suc n) (json_quote g @ rest) = Some (JStr g, rest)"
  using parse_scalar_quoted [of g rest]
  by (simp add: json_quote_plain skip_ws_no_ws is_ws_def)


lemma parse_elements_quoted:
  "list_all plain gs \<Longrightarrow> gs \<noteq> [] \<Longrightarrow> length gs < n \<Longrightarrow>
     parse_elements n acc (join '','' (map json_quote gs) @ CHR '']'' # rest)
       = Some (JArr (rev acc @ map JStr gs), rest)"
proof (induction gs arbitrary: n acc)
  case Nil
  then show ?case by simp
next
  case (Cons g gs)
  from Cons.prems obtain m where n: "n = Suc (Suc m)" and m: "length gs < Suc m"
    by (cases n; cases "n - 1") auto
  from Cons.prems have g: "plain g" and gs: "list_all plain gs" by simp_all
  show ?case
  proof (cases gs)
    case Nil
    have "parse_value (Suc m) (json_quote g @ CHR '']'' # rest) = Some (JStr g, CHR '']'' # rest)"
      using g by (rule parse_value_quoted)
    with Nil n show ?thesis by (simp add: skip_ws_no_ws is_ws_def)
  next
    case (Cons h t)
    have v: "parse_value (Suc m) (json_quote g @ CHR '','' # join '','' (map json_quote gs) @ CHR '']'' # rest)
          = Some (JStr g, CHR '','' # join '','' (map json_quote gs) @ CHR '']'' # rest)"
      using g by (rule parse_value_quoted)
    have "parse_elements (Suc m) (JStr g # acc) (join '','' (map json_quote gs) @ CHR '']'' # rest)
          = Some (JArr (rev (JStr g # acc) @ map JStr gs), rest)"
      using gs Cons m by (intro Cons.IH) auto
    with v Cons n show ?thesis by (simp add: skip_ws_no_ws is_ws_def)
  qed
qed

lemma serialize_strings:
  "serialize (JArr (map JStr gs)) = CHR ''['' # join '','' (map json_quote gs) @ '']''"
  by (simp add: comp_def)

lemma parse_value_bracketed:
  assumes "list_all plain gs" and "length gs < m"
  shows "parse_value (Suc m) (CHR ''['' # join '','' (map json_quote gs) @ '']'')
           = Some (JArr (map JStr gs), [])"
proof (cases gs)
  case Nil
  then show ?thesis by (simp add: skip_ws_no_ws is_ws_def)
next
  case (Cons g t)
  with assms have "plain g" by simp
  then obtain r0 where r: "join '','' (map json_quote gs) @ '']'' = CHR 0x22 # r0"
    using Cons by (cases t) (simp_all add: json_quote_plain)
  have "parse_elements m [] (join '','' (map json_quote gs) @ CHR '']'' # [])
          = Some (JArr (rev [] @ map JStr gs), [])"
    using assms Cons by (intro parse_elements_quoted) auto
  then have e: "parse_elements m [] (CHR 0x22 # r0) = Some (JArr (map JStr gs), [])"
    by (simp add: r)
  have "parse_value (Suc m) (CHR ''['' # CHR 0x22 # r0) = parse_elements m [] (CHR 0x22 # r0)"
    by (simp add: skip_ws_no_ws is_ws_def)
  with e show ?thesis by (simp only: r)
qed

lemma JSON_parse_text_strings:
  assumes "list_all plain gs"
  shows "JSON_parse_text (serialize (JArr (map JStr gs))) = Some (JArr (map JStr gs))"
proof -
  define s where "s = CHR ''['' # join '','' (map json_quote gs) @ '']''"
  define n where "n = Suc (max (length gs + 1) (2 * length s + 2))"
  have "parse_value n s = Some (JArr (map JStr gs), [])"
    unfolding n_def s_def using assms by (intro parse_value_bracketed) auto
  moreover have "2 * length s + 2 \<le> n" by (simp add: n_def)
  ultimately have "JSON_parse_text s = Some (JArr (map JStr gs))"
    by (simp add: JSON_parse_text_budget [of s n] skip_ws_def)
  then show ?thesis by (simp only: serialize_strings s_def)
qed

lemma login_groups_roundtrip:
  assumes "list_all plain gs"
  shows "getUserGroups node
           (snd (setUserData node req (JObj [(''username'', JStr u), (''groups'', JArr (map JStr gs))])))
         = JArr (map JStr gs)"
  using JSON_parse_text_strings [OF assms]
  by (simp add: setUserData_def getUserGroups_def JSON_parse_def JSON_stringify_def node_def
      JSON_stringify_value_def session_get_def session_set_def obj_get_def del: serialize.simps)

lemma onLogin_groups_roundtrip:
  assumes "list_all plain gs" and "obj_get data ''userData'' = JObj ud"
    and "obj_get ud ''groups'' = JArr (map JStr gs)"
  shows "getUserGroups node (snd (onLogin node blk req data)) = JArr (map JStr gs)"
  using JSON_parse_text_strings [OF assms(1)] assms(2,3)
  by (simp add: onLogin_session setUserData_def getUserGroups_def JSON_parse_def JSON_stringify_def
      node_def JSON_stringify_value_def session_get_def session_set_def obj_get_def
      del: serialize.simps)

end
